theory Spec2Isabelle
  imports Complex_Main "HOL-Library.Multiset" "HOL-Library.Product_Lexorder"
    "HOL-Library.Sublist"
begin

section \<open>Basic types\<close>

text \<open>
  Go's \<open>int64\<close> is modelled as \<open>int\<close> with the two's-complement wrap-around written out:
  every arithmetic result of the source passes through \<open>wrap64\<close>.  \<open>time.Time\<close> values
  are instants in nanoseconds since the Unix epoch (UTC), \<open>time.Duration\<close> is a number of
  nanoseconds.  \<open>float64\<close> fields (costs, dollar amounts) are idealised as \<open>real\<close>.
\<close>

definition wrap64 :: "int \<Rightarrow> int" where
  "wrap64 x = (x + 2 ^ 63) mod 2 ^ 64 - 2 ^ 63"

definition in64 :: "int \<Rightarrow> bool" where
  "in64 x = (- (2 ^ 63) \<le> x \<and> x < 2 ^ 63)"

type_synonym Time = int
type_synonym Duration = int

type_synonym QuotaUnit = string

definition QuotaTokens :: QuotaUnit where "QuotaTokens = ''tokens''"
definition QuotaRequests :: QuotaUnit where "QuotaRequests = ''requests''"
definition QuotaDollars :: QuotaUnit where "QuotaDollars = ''dollars''"

section \<open>Error taxonomy\<close>

text \<open>
  Go \<open>error\<close> values.  The sentinels are the package-level variables of the source,
  \<open>EOF\<close> is \<open>io.EOF\<close>, \<open>Errorf msg None\<close> is an opaque error made by \<open>errors.New\<close> or
  by \<open>fmt.Errorf\<close> without \<open>%w\<close>, \<open>Errorf msg (Some e)\<close> is \<open>fmt.Errorf\<close> wrapping
  \<open>e\<close> with \<open>%w\<close>, and \<open>RouterError\<close> is the struct of that name, whose \<open>Unwrap\<close> returns
  its \<open>Err\<close> field.  A nil \<open>error\<close> is \<open>None\<close> of \<open>error option\<close>.
\<close>

datatype error =
    ErrNoCandidates
  | ErrNoFreeQuota
  | ErrQuotaExceeded
  | ErrRateLimited
  | ErrAuthFailed
  | ErrInvalidRequest
  | ErrProviderUnavailable
  | ErrModelNotFound
  | ErrAllFailed
  | EOF
  | Errorf string "error option"
  | RouterError (rerr_Err: error) (rerr_Provider: string) (rerr_AccountID: string)
      (rerr_Model: string) (rerr_Attempts: int)

fun errors_Is :: "error \<Rightarrow> error \<Rightarrow> bool" where
  "errors_Is (Errorf m (Some e)) target =
     (Errorf m (Some e) = target \<or> errors_Is e target)"
| "errors_Is (RouterError e p a m n) target =
     (RouterError e p a m n = target \<or> errors_Is e target)"
| "errors_Is err target = (err = target)"

definition IsFatal :: "error \<Rightarrow> bool" where
  "IsFatal err = (errors_Is err ErrAuthFailed \<or> errors_Is err ErrInvalidRequest)"

definition IsRetryable :: "error \<Rightarrow> bool" where
  "IsRetryable err =
     (errors_Is err ErrRateLimited \<or> errors_Is err ErrProviderUnavailable \<or>
      errors_Is err ErrQuotaExceeded)"

section \<open>The in-memory quota store\<close>

record Reservation =
  rsv_ID :: string
  rsv_AccountID :: string
  rsv_Amount :: int
  rsv_Unit :: QuotaUnit

record accountQuota =
  DailyLimit :: int
  Used :: int
  Reserved :: int
  Unit :: QuotaUnit
  ResetAt :: Time

text \<open>
  \<open>accounts\<close> is \<open>map[string]*accountQuota\<close>; every pointer in it is created by
  \<open>SetQuota\<close> and owned by one key, so a mutation through the pointer is an update of the
  map entry.  \<open>seen\<close> is \<open>map[string]bool\<close>, only ever assigned \<open>true\<close>: a set of keys.
\<close>

record MemoryQuotaStore =
  accounts :: "string \<rightharpoonup> accountQuota"
  seen :: "string set"

definition NewMemoryQuotaStore :: MemoryQuotaStore where
  "NewMemoryQuotaStore = \<lparr>accounts = Map.empty, seen = {}\<rparr>"

definition dayNanos :: int where
  "dayNanos = 86400 * 1000000000"

text \<open>
  \<open>nextMidnightUTC\<close> reads the clock (\<open>now\<close>) and returns 00:00 UTC of the following day.
\<close>

definition nextMidnightUTC :: "Time \<Rightarrow> Time" where
  "nextMidnightUTC now = (now div dayNanos + 1) * dayNanos"

text \<open>
  \<open>SetQuota\<close> stores a freshly allocated row; the clock read inside \<open>nextMidnightUTC\<close> is
  the parameter \<open>now\<close>.
\<close>

definition SetQuota :: "MemoryQuotaStore \<Rightarrow> Time \<Rightarrow> string \<Rightarrow> int \<Rightarrow> QuotaUnit \<Rightarrow> MemoryQuotaStore" where
  "SetQuota s now accountID dailyLimit unit =
     s\<lparr>accounts := (accounts s)(accountID \<mapsto>
          \<lparr>DailyLimit = dailyLimit, Used = 0, Reserved = 0, Unit = unit,
           ResetAt = nextMidnightUTC now\<rparr>)\<rparr>"

text \<open>
  \<open>maybeReset\<close> reads the clock twice: \<open>now\<close> for the comparison with \<open>ResetAt\<close> and
  \<open>now'\<close> inside \<open>nextMidnightUTC\<close>.
\<close>

definition maybeReset :: "Time \<Rightarrow> Time \<Rightarrow> accountQuota \<Rightarrow> accountQuota" where
  "maybeReset now now' aq =
     (if now > ResetAt aq
      then aq\<lparr>Used := 0, Reserved := 0, ResetAt := nextMidnightUTC now'\<rparr>
      else aq)"

text \<open>
  \<open>Reserve\<close>.  Besides the arguments of the source it takes the two clock readings of
  \<open>maybeReset\<close> and the string \<open>rid\<close> that \<open>uuid.New().String()\<close> returns.
\<close>

definition Reserve ::
  "MemoryQuotaStore \<Rightarrow> Time \<Rightarrow> Time \<Rightarrow> string \<Rightarrow> string \<Rightarrow> int \<Rightarrow> QuotaUnit \<Rightarrow> string
     \<Rightarrow> (error + Reservation) \<times> MemoryQuotaStore" where
  "Reserve s now now' rid accountID amount unit idempotencyKey =
     (if idempotencyKey \<noteq> [] \<and> idempotencyKey \<in> seen s
      then (Inl (Errorf (''inferrouter: duplicate idempotency key '' @ idempotencyKey) None), s)
      else
        (case accounts s accountID of
           None \<Rightarrow>
             (Inr \<lparr>rsv_ID = rid, rsv_AccountID = accountID, rsv_Amount = amount,
                   rsv_Unit = unit\<rparr>, s)
         | Some aq0 \<Rightarrow>
             (let aq = maybeReset now now' aq0;
                  s1 = s\<lparr>accounts := (accounts s)(accountID \<mapsto> aq)\<rparr>;
                  available = wrap64 (wrap64 (DailyLimit aq - Used aq) - Reserved aq)
              in if amount > available then (Inl ErrQuotaExceeded, s1)
                 else
                   (let aq' = aq\<lparr>Reserved := wrap64 (Reserved aq + amount)\<rparr>;
                        s2 = s1\<lparr>accounts := (accounts s1)(accountID \<mapsto> aq')\<rparr>;
                        s3 = (if idempotencyKey \<noteq> []
                              then s2\<lparr>seen := insert idempotencyKey (seen s2)\<rparr> else s2)
                    in (Inr \<lparr>rsv_ID = rid, rsv_AccountID = accountID, rsv_Amount = amount,
                              rsv_Unit = unit\<rparr>, s3)))))"

definition Commit :: "MemoryQuotaStore \<Rightarrow> Reservation \<Rightarrow> int \<Rightarrow> error option \<times> MemoryQuotaStore" where
  "Commit s res actualAmount =
     (case accounts s (rsv_AccountID res) of
        None \<Rightarrow> (None, s)
      | Some aq \<Rightarrow>
          (let aq1 = aq\<lparr>Reserved := wrap64 (Reserved aq - rsv_Amount res)\<rparr>;
               aq2 = aq1\<lparr>Used := wrap64 (Used aq1 + actualAmount)\<rparr>
           in (None, s\<lparr>accounts := (accounts s)(rsv_AccountID res \<mapsto> aq2)\<rparr>)))"

definition Rollback :: "MemoryQuotaStore \<Rightarrow> Reservation \<Rightarrow> error option \<times> MemoryQuotaStore" where
  "Rollback s res =
     (case accounts s (rsv_AccountID res) of
        None \<Rightarrow> (None, s)
      | Some aq \<Rightarrow>
          (None, s\<lparr>accounts := (accounts s)(rsv_AccountID res \<mapsto>
                      aq\<lparr>Reserved := wrap64 (Reserved aq - rsv_Amount res)\<rparr>)\<rparr>))"

text \<open>
  \<open>Remaining\<close> takes a read lock, reads no clock and changes nothing.
\<close>

definition Remaining :: "MemoryQuotaStore \<Rightarrow> string \<Rightarrow> int \<times> error option" where
  "Remaining s accountID =
     (case accounts s accountID of
        None \<Rightarrow> (0, None)
      | Some aq \<Rightarrow>
          (let available = wrap64 (wrap64 (DailyLimit aq - Used aq) - Reserved aq)
           in if available < 0 then (0, None) else (available, None)))"


subsection \<open>Sequences of Reserve calls\<close>

text \<open>
  One call of \<open>Reserve\<close> with everything it reads: its arguments, the two clock readings
  and the generated reservation id.  \<open>ReserveSeq\<close> runs a list of calls one after the
  other on the same store, as the store's mutex serialises them, and collects the results.
\<close>

record ReserveCall =
  rc_now :: Time
  rc_now' :: Time
  rc_rid :: string
  rc_account :: string
  rc_amount :: int
  rc_unit :: QuotaUnit
  rc_key :: string

definition ReserveCall_run ::
  "MemoryQuotaStore \<Rightarrow> ReserveCall \<Rightarrow> (error + Reservation) \<times> MemoryQuotaStore" where
  "ReserveCall_run s c =
     Reserve s (rc_now c) (rc_now' c) (rc_rid c) (rc_account c) (rc_amount c) (rc_unit c) (rc_key c)"

fun ReserveSeq ::
  "MemoryQuotaStore \<Rightarrow> ReserveCall list \<Rightarrow> (error + Reservation) list \<times> MemoryQuotaStore" where
  "ReserveSeq s [] = ([], s)"
| "ReserveSeq s (c # cs) =
     (case ReserveCall_run s c of
        (r, s1) \<Rightarrow> (case ReserveSeq s1 cs of (rs, s2) \<Rightarrow> (r # rs, s2)))"

text \<open>The error of a call (\<open>None\<close> for a returned reservation).\<close>

definition outcome :: "error + Reservation \<Rightarrow> error option" where
  "outcome r = (case r of Inl e \<Rightarrow> Some e | Inr _ \<Rightarrow> None)"

text \<open>
  The invariant of an account row, together with the range of \<open>int64\<close> for the limit.
\<close>

definition row_inv :: "accountQuota \<Rightarrow> bool" where
  "row_inv aq =
     (0 \<le> Used aq \<and> 0 \<le> Reserved aq \<and> Used aq + Reserved aq \<le> DailyLimit aq \<and>
      DailyLimit aq < 2 ^ 63)"

section \<open>Health tracker\<close>

datatype HealthState = HealthHealthy | HealthUnhealthy | HealthHalfOpen

record HealthConfig =
  FailureThreshold :: int
  FailureWindow :: Duration
  UnhealthyPeriod :: Duration

definition DefaultHealthConfig :: HealthConfig where
  "DefaultHealthConfig =
     \<lparr>FailureThreshold = 3, FailureWindow = 5 * 60 * 1000000000,
      UnhealthyPeriod = 30 * 1000000000\<rparr>"

record accountHealth =
  state :: HealthState
  failures :: "Time list"
  unhealthyAt :: Time

record HealthTracker =
  h_cfg :: HealthConfig
  h_accounts :: "string \<rightharpoonup> accountHealth"

definition NewHealthTrackerWithConfig :: "HealthConfig \<Rightarrow> HealthTracker" where
  "NewHealthTrackerWithConfig c = \<lparr>h_cfg = c, h_accounts = Map.empty\<rparr>"

definition NewHealthTracker :: HealthTracker where
  "NewHealthTracker = NewHealthTrackerWithConfig DefaultHealthConfig"

text \<open>The zero \<open>time.Time\<close> (1 January of year 1, UTC).\<close>

definition zeroTime :: Time where
  "zeroTime = - 62135596800 * 1000000000"

text \<open>
  \<open>GetHealth\<close>; \<open>now\<close> is the clock reading of \<open>time.Since\<close>.  The tracker is returned
  because the Unhealthy-to-HalfOpen edge is written back.
\<close>

definition GetHealth :: "HealthTracker \<Rightarrow> Time \<Rightarrow> string \<Rightarrow> HealthState \<times> HealthTracker" where
  "GetHealth h now accountID =
     (case h_accounts h accountID of
        None \<Rightarrow> (HealthHealthy, h)
      | Some ah \<Rightarrow>
          if state ah = HealthUnhealthy \<and> now - unhealthyAt ah \<ge> UnhealthyPeriod (h_cfg h)
          then (HealthHalfOpen,
                h\<lparr>h_accounts := (h_accounts h)(accountID \<mapsto> ah\<lparr>state := HealthHalfOpen\<rparr>)\<rparr>)
          else (state ah, h))"

definition getOrCreate :: "HealthTracker \<Rightarrow> string \<Rightarrow> accountHealth \<times> HealthTracker" where
  "getOrCreate h accountID =
     (case h_accounts h accountID of
        Some ah \<Rightarrow> (ah, h)
      | None \<Rightarrow>
          (let ah = \<lparr>state = HealthHealthy, failures = [], unhealthyAt = zeroTime\<rparr>
           in (ah, h\<lparr>h_accounts := (h_accounts h)(accountID \<mapsto> ah)\<rparr>)))"

definition RecordSuccess :: "HealthTracker \<Rightarrow> string \<Rightarrow> HealthTracker" where
  "RecordSuccess h accountID =
     (case getOrCreate h accountID of
        (ah, h1) \<Rightarrow>
          h1\<lparr>h_accounts := (h_accounts h1)(accountID \<mapsto>
                ah\<lparr>state := HealthHealthy, failures := []\<rparr>)\<rparr>)"

definition RecordFailure :: "HealthTracker \<Rightarrow> Time \<Rightarrow> string \<Rightarrow> HealthTracker" where
  "RecordFailure h now accountID =
     (case getOrCreate h accountID of
        (ah, h1) \<Rightarrow>
          if state ah = HealthUnhealthy then h1
          else
            (let cutoff = now - FailureWindow (h_cfg h1);
                 valid = filter (\<lambda>t. t > cutoff) (failures ah);
                 ah1 = ah\<lparr>failures := valid @ [now]\<rparr>;
                 ah2 = (if int (length (failures ah1)) \<ge> FailureThreshold (h_cfg h1)
                        then ah1\<lparr>state := HealthUnhealthy, unhealthyAt := now\<rparr>
                        else ah1)
             in h1\<lparr>h_accounts := (h_accounts h1)(accountID \<mapsto> ah2)\<rparr>))"

subsection \<open>Histories of the tracker\<close>

datatype HealthOp =
    OpGetHealth Time string
  | OpRecordSuccess string
  | OpRecordFailure Time string

fun HealthOp_run :: "HealthTracker \<Rightarrow> HealthOp \<Rightarrow> HealthTracker" where
  "HealthOp_run h (OpGetHealth now a) = snd (GetHealth h now a)"
| "HealthOp_run h (OpRecordSuccess a) = RecordSuccess h a"
| "HealthOp_run h (OpRecordFailure now a) = RecordFailure h now a"

text \<open>Whether an operation is a \<open>RecordSuccess\<close> or \<open>RecordFailure\<close> for the account.\<close>

fun records :: "string \<Rightarrow> HealthOp \<Rightarrow> bool" where
  "records a (OpGetHealth now b) = False"
| "records a (OpRecordSuccess b) = (a = b)"
| "records a (OpRecordFailure now b) = (a = b)"

section \<open>Candidates, filter and policy\<close>

text \<open>
  The \<open>Provider\<close> field holds an interface value; the router keeps one provider per name,
  so the field is modelled by the provider's \<open>Name()\<close>.  \<open>Auth\<close> is its \<open>APIKey\<close>.
  The field \<open>Remaining\<close> of the source is \<open>RemainingQuota\<close> here.
\<close>

record Candidate =
  Provider :: string
  AccountID :: string
  Auth :: string
  Model :: string
  Free :: bool
  RemainingQuota :: int
  QuotaUnit :: QuotaUnit
  Health :: HealthState
  CostPerToken :: real
  CostPerInputToken :: real
  CostPerOutputToken :: real
  MaxDailySpend :: real
  CurrentSpend :: real

definition BlendedCost :: "Candidate \<Rightarrow> real" where
  "BlendedCost c =
     (if CostPerInputToken c > 0 \<or> CostPerOutputToken c > 0
      then (CostPerInputToken c + 2 * CostPerOutputToken c) / 3
      else CostPerToken c)"

fun filterCandidates :: "Candidate list \<Rightarrow> bool \<Rightarrow> Candidate list" where
  "filterCandidates [] allowPaid = []"
| "filterCandidates (c # cs) allowPaid =
     (if Health c = HealthUnhealthy then filterCandidates cs allowPaid
      else if \<not> Free c \<and> \<not> allowPaid then filterCandidates cs allowPaid
      else c # filterCandidates cs allowPaid)"

text \<open>
  \<open>sort.SliceStable\<close> belongs to Go's standard library.  It runs insertion sort (each
  element moves left while it is less than its left neighbour) on blocks of the slice and
  merges the blocks in place; it is modelled by that insertion sort over the whole slice.
  \<open>bubbleLeft\<close> works on the sorted prefix in reverse order, nearest neighbour first.
\<close>

fun bubbleLeft :: "('a \<Rightarrow> 'a \<Rightarrow> bool) \<Rightarrow> 'a \<Rightarrow> 'a list \<Rightarrow> 'a list" where
  "bubbleLeft lt x [] = [x]"
| "bubbleLeft lt x (y # rp) =
     (if lt x y then y # bubbleLeft lt x rp else x # y # rp)"

definition SliceStable :: "('a \<Rightarrow> 'a \<Rightarrow> bool) \<Rightarrow> 'a list \<Rightarrow> 'a list" where
  "SliceStable lt xs = rev (foldl (\<lambda>rp x. bubbleLeft lt x rp) [] xs)"

text \<open>The comparison closure of \<open>FreeFirstPolicy.Select\<close>.\<close>

definition FreeFirst_less :: "Candidate \<Rightarrow> Candidate \<Rightarrow> bool" where
  "FreeFirst_less ci cj =
     (if Free ci \<noteq> Free cj then Free ci
      else if Free ci then RemainingQuota ci > RemainingQuota cj
      else BlendedCost ci < BlendedCost cj)"


text \<open>
  Two candidates tie when the policy ranks neither before the other;
  \<open>in_policy_order a b\<close> is the order the policy promises between an earlier element
  \<open>a\<close> and a later element \<open>b\<close> of its result: free before paid, among free the larger
  remaining quota first, among paid the smaller blended cost first.
\<close>

definition tie :: "Candidate \<Rightarrow> Candidate \<Rightarrow> bool" where
  "tie a b =
     (Free a = Free b \<and>
      (if Free a then RemainingQuota a = RemainingQuota b else BlendedCost a = BlendedCost b))"

definition in_policy_order :: "Candidate \<Rightarrow> Candidate \<Rightarrow> bool" where
  "in_policy_order a b =
     (if Free a \<and> Free b then RemainingQuota b \<le> RemainingQuota a
      else if \<not> Free a \<and> \<not> Free b then BlendedCost a \<le> BlendedCost b
      else Free a)"



section \<open>Requests, responses and meter events\<close>

record Message =
  Role :: string
  Content :: string

record Usage =
  PromptTokens :: int
  CompletionTokens :: int
  TotalTokens :: int

record ChatRequest =
  req_Model :: string
  req_Messages :: "Message list"
  req_Temperature :: "real option"
  req_MaxTokens :: "int option"
  req_TopP :: "real option"
  req_Stream :: bool
  req_Stop :: "string list"

record ProviderRequest =
  pr_Auth :: string
  pr_Model :: string
  pr_Messages :: "Message list"
  pr_Temperature :: "real option"
  pr_MaxTokens :: "int option"
  pr_TopP :: "real option"
  pr_Stop :: "string list"
  pr_Stream :: bool

record ProviderResponse =
  presp_ID :: string
  presp_Content :: string
  presp_FinishReason :: string
  presp_Usage :: Usage
  presp_Model :: string

record Choice =
  ch_Index :: int
  ch_Message :: Message
  ch_FinishReason :: string

record RoutingInfo =
  ri_Provider :: string
  ri_AccountID :: string
  ri_Model :: string
  ri_Attempts :: int
  ri_Free :: bool

record ChatResponse =
  cr_ID :: string
  cr_Choices :: "Choice list"
  cr_Usage :: Usage
  cr_Model :: string
  cr_Routing :: RoutingInfo

record Delta =
  d_Role :: string
  d_Content :: string

record StreamDelta =
  sd_Index :: int
  sd_Delta :: Delta
  sd_FinishReason :: string

record StreamChunk =
  sc_ID :: string
  sc_Choices :: "StreamDelta list"
  sc_Model :: string
  sc_Usage :: "Usage option"

record RouteEvent =
  re_Provider :: string
  re_AccountID :: string
  re_Model :: string
  re_Free :: bool
  re_AttemptNum :: int
  re_EstimatedIn :: int

record ResultEvent =
  rs_Provider :: string
  rs_AccountID :: string
  rs_Model :: string
  rs_Free :: bool
  rs_Success :: bool
  rs_Duration :: Duration
  rs_Usage :: Usage
  rs_Error :: "error option"
  rs_DollarCost :: real

text \<open>A \<open>Meter\<close> is an interface; what it receives is the list of events, oldest first.\<close>

datatype MeterEvent = OnRoute RouteEvent | OnResult ResultEvent

definition zeroUsage :: Usage where
  "zeroUsage = \<lparr>PromptTokens = 0, CompletionTokens = 0, TotalTokens = 0\<rparr>"

section \<open>Spend tracker\<close>

record SpendTracker =
  sp_accounts :: "string \<rightharpoonup> real"
  resetDay :: int

text \<open>\<open>today\<close> is \<open>time.Now().UTC().YearDay()\<close>.\<close>

definition checkReset :: "SpendTracker \<Rightarrow> int \<Rightarrow> SpendTracker" where
  "checkReset s today =
     (if today \<noteq> resetDay s then \<lparr>sp_accounts = Map.empty, resetDay = today\<rparr> else s)"


definition GetSpend :: "SpendTracker \<Rightarrow> int \<Rightarrow> string \<Rightarrow> real \<times> SpendTracker" where
  "GetSpend s today accountID =
     (let s1 = checkReset s today
      in (case sp_accounts s1 accountID of None \<Rightarrow> (0, s1) | Some a \<Rightarrow> (a, s1)))"


section \<open>The router's collaborators\<close>

text \<open>
  \<open>QuotaStore\<close>, \<open>Provider\<close> and \<open>ProviderStream\<close> are interfaces: their methods are the
  fields of \<open>Env\<close>, functions on the state \<open>'q\<close> of the store, \<open>'p\<close> of the providers
  (selected by name) and \<open>'i\<close> of a provider stream.  \<open>clock n\<close> is what \<open>time.Now()\<close>
  returns at the \<open>n\<close>-th point where the code may read it, \<open>uuid n\<close> the \<open>n\<close>-th string
  from \<open>uuid.New()\<close>, and \<open>yearDay\<close> is \<open>Time.UTC().YearDay()\<close>.
\<close>

record ('q, 'p, 'i) Env =
  q_Reserve :: "'q \<Rightarrow> string \<Rightarrow> int \<Rightarrow> QuotaUnit \<Rightarrow> string \<Rightarrow> (error + Reservation) \<times> 'q"
  q_Commit :: "'q \<Rightarrow> Reservation \<Rightarrow> int \<Rightarrow> error option \<times> 'q"
  q_Rollback :: "'q \<Rightarrow> Reservation \<Rightarrow> error option \<times> 'q"
  p_ChatCompletion :: "'p \<Rightarrow> string \<Rightarrow> ProviderRequest \<Rightarrow> (error + ProviderResponse) \<times> 'p"
  s_Next :: "'i \<Rightarrow> (StreamChunk \<times> error option) \<times> 'i"
  s_Close :: "'i \<Rightarrow> error option \<times> 'i"
  clock :: "nat \<Rightarrow> Time"
  uuid :: "nat \<Rightarrow> string"
  yearDay :: "Time \<Rightarrow> int"

text \<open>
  Everything a request can change: the quota store, the health and spend trackers, the
  events given to the meter, the providers, the list of provider invocations made so far
  (provider name and request, oldest first) and the numbers of clock readings and of
  generated UUIDs.
\<close>

record ('q, 'p) World =
  w_quota :: 'q
  w_health :: HealthTracker
  w_spend :: SpendTracker
  w_meter :: "MeterEvent list"
  w_providers :: 'p
  w_calls :: "(string \<times> ProviderRequest) list"
  w_clock :: nat
  w_uuids :: nat

definition timeNow :: "('q, 'p, 'i) Env \<Rightarrow> ('q, 'p) World \<Rightarrow> Time \<times> ('q, 'p) World" where
  "timeNow E w = (clock E (w_clock w), w\<lparr>w_clock := Suc (w_clock w)\<rparr>)"

definition newUUID :: "('q, 'p, 'i) Env \<Rightarrow> ('q, 'p) World \<Rightarrow> string \<times> ('q, 'p) World" where
  "newUUID E w = (uuid E (w_uuids w), w\<lparr>w_uuids := Suc (w_uuids w)\<rparr>)"


section \<open>The attempt loop of Router.ChatCompletion\<close>

text \<open>
  The body of the loop \<open>for attempt, c := range ordered\<close>, in the order of the source:
  \<open>reserveFor\<close> (fresh idempotency key, amount, \<open>Reserve\<close>), \<open>callProvider\<close> (the
  \<open>OnRoute\<close> event, the provider request, the timed call), then \<open>onProviderError\<close> or
  \<open>onSuccess\<close>.
\<close>

definition reserveFor ::
  "('q, 'p, 'i) Env \<Rightarrow> int \<Rightarrow> Candidate \<Rightarrow> ('q, 'p) World
     \<Rightarrow> (error + Reservation) \<times> ('q, 'p) World" where
  "reserveFor E estimatedTokens c w =
     (case newUUID E w of
        (idempotencyKey, w1) \<Rightarrow>
          (let reserveAmount = (if QuotaUnit c = QuotaRequests then 1 else estimatedTokens)
           in case q_Reserve E (w_quota w1) (AccountID c) reserveAmount (QuotaUnit c)
                     idempotencyKey of
                (r, q1) \<Rightarrow> (r, w1\<lparr>w_quota := q1\<rparr>)))"

definition providerRequest :: "ChatRequest \<Rightarrow> Candidate \<Rightarrow> ProviderRequest" where
  "providerRequest req c =
     \<lparr>pr_Auth = Auth c, pr_Model = Model c, pr_Messages = req_Messages req,
      pr_Temperature = req_Temperature req, pr_MaxTokens = req_MaxTokens req,
      pr_TopP = req_TopP req, pr_Stop = req_Stop req, pr_Stream = False\<rparr>"

definition callProvider ::
  "('q, 'p, 'i) Env \<Rightarrow> ChatRequest \<Rightarrow> int \<Rightarrow> int \<Rightarrow> Candidate \<Rightarrow> ('q, 'p) World
     \<Rightarrow> ((error + ProviderResponse) \<times> Duration) \<times> ('q, 'p) World" where
  "callProvider E req estimatedTokens attempt c w =
     (let w1 = w\<lparr>w_meter := w_meter w @
                 [OnRoute \<lparr>re_Provider = Provider c, re_AccountID = AccountID c,
                           re_Model = Model c, re_Free = Free c,
                           re_AttemptNum = attempt + 1,
                           re_EstimatedIn = estimatedTokens\<rparr>]\<rparr>;
          provReq = providerRequest req c
      in case timeNow E w1 of
           (start, w2) \<Rightarrow>
             (case p_ChatCompletion E (w_providers w2) (Provider c) provReq of
                (resp, p1) \<Rightarrow>
                  (let w3 = w2\<lparr>w_providers := p1,
                               w_calls := w_calls w2 @ [(Provider c, provReq)]\<rparr>
                   in case timeNow E w3 of
                        (finish, w4) \<Rightarrow> ((resp, finish - start), w4))))"

definition onProviderError ::
  "('q, 'p, 'i) Env \<Rightarrow> Candidate \<Rightarrow> Reservation \<Rightarrow> error \<Rightarrow> Duration \<Rightarrow> ('q, 'p) World
     \<Rightarrow> ('q, 'p) World" where
  "onProviderError E c reservation err duration w =
     (case q_Rollback E (w_quota w) reservation of
        (_, q1) \<Rightarrow>
          (case timeNow E (w\<lparr>w_quota := q1\<rparr>) of
             (now, w1) \<Rightarrow>
               (let w2 = w1\<lparr>w_health := RecordFailure (w_health w1) now (AccountID c)\<rparr>
                in w2\<lparr>w_meter := w_meter w2 @
                     [OnResult \<lparr>rs_Provider = Provider c, rs_AccountID = AccountID c,
                                rs_Model = Model c, rs_Free = Free c, rs_Success = False,
                                rs_Duration = duration, rs_Usage = zeroUsage,
                                rs_Error = Some err, rs_DollarCost = 0\<rparr>]\<rparr>)))"

definition onSuccess ::
  "('q, 'p, 'i) Env \<Rightarrow> Candidate \<Rightarrow> Reservation \<Rightarrow> ProviderResponse \<Rightarrow> Duration
     \<Rightarrow> ('q, 'p) World \<Rightarrow> ('q, 'p) World" where
  "onSuccess E c reservation resp duration w =
     (let actualTokens = (if QuotaUnit c = QuotaRequests then 1
                          else TotalTokens (presp_Usage resp))
      in case q_Commit E (w_quota w) reservation actualTokens of
           (_, q1) \<Rightarrow>
             (let w1 = w\<lparr>w_quota := q1\<rparr>;
                  w2 = w1\<lparr>w_health := RecordSuccess (w_health w1) (AccountID c)\<rparr>
              in w2\<lparr>w_meter := w_meter w2 @
                   [OnResult \<lparr>rs_Provider = Provider c, rs_AccountID = AccountID c,
                              rs_Model = Model c, rs_Free = Free c, rs_Success = True,
                              rs_Duration = duration, rs_Usage = presp_Usage resp,
                              rs_Error = None, rs_DollarCost = 0\<rparr>]\<rparr>))"

text \<open>How one iteration ends: \<open>continue\<close> with \<open>lastErr = err\<close>, or \<open>return\<close>.\<close>

datatype Step = Continue error | Return "error + ChatResponse"

definition attemptBody ::
  "('q, 'p, 'i) Env \<Rightarrow> ChatRequest \<Rightarrow> int \<Rightarrow> int \<Rightarrow> Candidate \<Rightarrow> ('q, 'p) World
     \<Rightarrow> Step \<times> ('q, 'p) World" where
  "attemptBody E req estimatedTokens attempt c w =
     (case reserveFor E estimatedTokens c w of
        (Inl err, w1) \<Rightarrow> (Continue err, w1)
      | (Inr reservation, w1) \<Rightarrow>
          (case callProvider E req estimatedTokens attempt c w1 of
             ((Inl err, duration), w2) \<Rightarrow>
               (let w3 = onProviderError E c reservation err duration w2
                in if IsFatal err
                   then (Return (Inl (RouterError err (Provider c) (AccountID c) (Model c)
                                        (attempt + 1))), w3)
                   else (Continue err, w3))
           | ((Inr resp, duration), w2) \<Rightarrow>
               (Return (Inr \<lparr>cr_ID = presp_ID resp,
                              cr_Choices =
                                [\<lparr>ch_Index = 0,
                                  ch_Message = \<lparr>Role = ''assistant'',
                                                Content = presp_Content resp\<rparr>,
                                  ch_FinishReason = presp_FinishReason resp\<rparr>],
                              cr_Usage = presp_Usage resp,
                              cr_Model = presp_Model resp,
                              cr_Routing =
                                \<lparr>ri_Provider = Provider c, ri_AccountID = AccountID c,
                                 ri_Model = Model c, ri_Attempts = attempt + 1,
                                 ri_Free = Free c\<rparr>\<rparr>),
                onSuccess E c reservation resp duration w2)))"

text \<open>
  How the loop ends: by a \<open>return\<close> inside the body, or by running out of candidates
  with the final value of \<open>lastErr\<close>.
\<close>

datatype LoopExit = Returned "error + ChatResponse" | Exhausted "error option"

fun attemptLoop ::
  "('q, 'p, 'i) Env \<Rightarrow> ChatRequest \<Rightarrow> int \<Rightarrow> int \<Rightarrow> Candidate list \<Rightarrow> error option
     \<Rightarrow> ('q, 'p) World \<Rightarrow> LoopExit \<times> ('q, 'p) World" where
  "attemptLoop E req estimatedTokens attempt [] lastErr w = (Exhausted lastErr, w)"
| "attemptLoop E req estimatedTokens attempt (c # cs) lastErr w =
     (case attemptBody E req estimatedTokens attempt c w of
        (Continue err, w1) \<Rightarrow> attemptLoop E req estimatedTokens (attempt + 1) cs (Some err) w1
      | (Return r, w1) \<Rightarrow> (Returned r, w1))"

text \<open>
  \<open>ChatCompletion\<close> from \<open>var lastErr error\<close> to its end, for the values of
  \<open>estimatedTokens\<close> and \<open>ordered\<close> computed before the loop; \<open>afterLoop\<close> is the code
  that follows the loop.
\<close>

definition afterLoop ::
  "Candidate list \<Rightarrow> LoopExit \<times> ('q, 'p) World \<Rightarrow> (error + ChatResponse) \<times> ('q, 'p) World" where
  "afterLoop ordered x =
     (case x of
        (Returned r, w1) \<Rightarrow> (r, w1)
      | (Exhausted lastErr, w1) \<Rightarrow>
          (if lastErr \<noteq> None
           then (Inl (RouterError ErrAllFailed [] [] [] (int (length ordered))), w1)
           else (Inl ErrNoCandidates, w1)))"

definition ChatCompletion_attempts ::
  "('q, 'p, 'i) Env \<Rightarrow> ChatRequest \<Rightarrow> int \<Rightarrow> Candidate list \<Rightarrow> ('q, 'p) World
     \<Rightarrow> (error + ChatResponse) \<times> ('q, 'p) World" where
  "ChatCompletion_attempts E req estimatedTokens ordered w =
     afterLoop ordered (attemptLoop E req estimatedTokens 0 ordered None w)"

section \<open>RouterStream\<close>

text \<open>
  The fields of \<open>RouterStream\<close> that belong to one stream.  Its \<open>quotaStore\<close>, \<open>meter\<close>,
  \<open>health\<close> and \<open>spend\<close> fields point to the router's collaborators, which are in the
  \<open>World\<close>; all four are taken to be set.
\<close>

record 'i RouterStream =
  inner :: 'i
  reservation :: Reservation
  candidate :: Candidate
  startTime :: Time
  totalUsage :: Usage
  closed :: bool
  streamErr :: "error option"

definition Next ::
  "('q, 'p, 'i) Env \<Rightarrow> 'i RouterStream \<Rightarrow> (StreamChunk \<times> error option) \<times> 'i RouterStream" where
  "Next E s =
     (case s_Next E (inner s) of
        ((chunk, err), i1) \<Rightarrow>
          (let s1 = s\<lparr>inner := i1\<rparr>
           in case err of
                Some e \<Rightarrow>
                  ((chunk, Some e), if streamErr s1 = None then s1\<lparr>streamErr := Some e\<rparr> else s1)
              | None \<Rightarrow>
                  ((chunk, None),
                   case sc_Usage chunk of Some u \<Rightarrow> s1\<lparr>totalUsage := u\<rparr> | None \<Rightarrow> s1)))"






section \<open>The Redis store's SetQuota\<close>

text \<open>
  The Redis-backed store keeps each account in a hash; \<open>client\<close> maps a key to the hash
  stored there, a hash maps field names to values.  Integers are stored in decimal, which
  \<open>RInt\<close> stands for.  \<open>reset_at\<close> is in Unix seconds.
\<close>

datatype RedisValue = RInt int | RStr string

type_synonym RedisHashes = "string \<rightharpoonup> (string \<rightharpoonup> RedisValue)"

definition HSet :: "RedisHashes \<Rightarrow> string \<Rightarrow> (string \<times> RedisValue) list \<Rightarrow> RedisHashes" where
  "HSet client key fvs =
     client(key \<mapsto>
       foldl (\<lambda>h (f, v). h(f \<mapsto> v)) (case client key of None \<Rightarrow> Map.empty | Some h \<Rightarrow> h) fvs)"

definition redis_SetQuota ::
  "RedisHashes \<Rightarrow> string \<Rightarrow> Time \<Rightarrow> string \<Rightarrow> int \<Rightarrow> QuotaUnit \<Rightarrow> RedisHashes" where
  "redis_SetQuota client keyPrefix now accountID dailyLimit unit =
     (let key = keyPrefix @ accountID;
          nextMidnight = nextMidnightUTC now
      in if client key = None
         then HSet client key
                [(''daily_limit'', RInt dailyLimit), (''used'', RInt 0), (''reserved'', RInt 0),
                 (''unit'', RStr unit), (''reset_at'', RInt (nextMidnight div 1000000000))]
         else HSet client key [(''daily_limit'', RInt dailyLimit), (''unit'', RStr unit)])"

section \<open>Scenarios\<close>

text \<open>
  A store in which account \<open>acct\<close> was given a daily limit of 10 tokens at time 0, 7 tokens
  were reserved and committed, and 2 more are reserved.  Its row is reset at the first
  midnight, \<open>dayNanos\<close>.
\<close>

definition usedStore :: MemoryQuotaStore where
  "usedStore =
     snd (Reserve
       (snd (Commit
          (snd (Reserve (SetQuota NewMemoryQuotaStore 0 ''acct'' 10 QuotaTokens)
                  1 1 ''r1'' ''acct'' 7 QuotaTokens ''k1''))
          \<lparr>rsv_ID = ''r1'', rsv_AccountID = ''acct'', rsv_Amount = 7, rsv_Unit = QuotaTokens\<rparr>
          7))
       2 2 ''r2'' ''acct'' 2 QuotaTokens ''k2'')"

text \<open>A call \<open>Reserve(account, 1)\<close> at time 5 with the given idempotency key.\<close>

definition unitCall :: "string \<Rightarrow> string \<Rightarrow> ReserveCall" where
  "unitCall a key =
     \<lparr>rc_now = 5, rc_now' = 5, rc_rid = ''r'', rc_account = a, rc_amount = 1,
      rc_unit = QuotaRequests, rc_key = key\<rparr>"

text \<open>A healthy candidate of provider \<open>p\<close> on account \<open>a\<close>, free or paid.\<close>

definition cand :: "string \<Rightarrow> string \<Rightarrow> bool \<Rightarrow> Candidate" where
  "cand p a free =
     \<lparr>Provider = p, AccountID = a, Auth = ''secret'', Model = ''m'', Free = free,
      RemainingQuota = 100, QuotaUnit = QuotaTokens, Health = HealthHealthy,
      CostPerToken = 0, CostPerInputToken = 0, CostPerOutputToken = 0,
      MaxDailySpend = 0, CurrentSpend = 0\<rparr>"

text \<open>
  A router over the in-memory store and three providers: \<open>busy\<close> answers every call with
  \<open>ErrRateLimited\<close>, \<open>locked\<close> with \<open>ErrAuthFailed\<close>, every other provider with a response
  of 30 tokens.  Account \<open>full\<close> has a daily limit of 0.
\<close>

definition okResponse :: ProviderResponse where
  "okResponse =
     \<lparr>presp_ID = ''id'', presp_Content = ''hello'', presp_FinishReason = ''stop'',
      presp_Usage = \<lparr>PromptTokens = 10, CompletionTokens = 20, TotalTokens = 30\<rparr>,
      presp_Model = ''m''\<rparr>"

definition exEnv :: "(MemoryQuotaStore, unit, unit) Env" where
  "exEnv =
     \<lparr>q_Reserve = (\<lambda>q a n u k. Reserve q 5 5 (''rsv-'' @ k) a n u k),
      q_Commit = Commit,
      q_Rollback = Rollback,
      p_ChatCompletion =
        (\<lambda>p name r.
           if name = ''busy'' then (Inl ErrRateLimited, p)
           else if name = ''locked'' then (Inl ErrAuthFailed, p)
           else (Inr okResponse, p)),
      s_Next = (\<lambda>i. ((\<lparr>sc_ID = [], sc_Choices = [], sc_Model = [], sc_Usage = None\<rparr>,
                       Some EOF), i)),
      s_Close = (\<lambda>i. (None, i)),
      clock = (\<lambda>n. 5 + int n),
      uuid = (\<lambda>n. replicate (Suc n) (CHR ''u'')),
      yearDay = (\<lambda>t. 1)\<rparr>"

definition exWorld :: "(MemoryQuotaStore, unit) World" where
  "exWorld =
     \<lparr>w_quota = SetQuota NewMemoryQuotaStore 0 ''full'' 0 QuotaTokens,
      w_health = NewHealthTracker,
      w_spend = \<lparr>sp_accounts = Map.empty, resetDay = 1\<rparr>,
      w_meter = [], w_providers = (), w_calls = [], w_clock = 0, w_uuids = 0\<rparr>"

definition exRequest :: ChatRequest where
  "exRequest =
     \<lparr>req_Model = [], req_Messages = [\<lparr>Role = ''user'', Content = ''hello''\<rparr>],
      req_Temperature = None, req_MaxTokens = None, req_TopP = None, req_Stream = False,
      req_Stop = []\<rparr>"



section \<open>Properties of the in-memory quota store\<close>

subsection \<open>No over-allocation\<close>

lemma wrap64_id: "in64 x \<Longrightarrow> wrap64 x = x"
  by (simp add: wrap64_def in64_def)

lemma available_exact:
  assumes "row_inv aq"
  shows "wrap64 (wrap64 (DailyLimit aq - Used aq) - Reserved aq) = DailyLimit aq - Used aq - Reserved aq"
  using assms by (simp add: wrap64_id in64_def row_inv_def)

lemma row_inv_maybeReset: "row_inv aq \<Longrightarrow> row_inv (maybeReset now now' aq)"
  by (simp add: row_inv_def maybeReset_def)

lemma Reserve_configured:
  assumes "accounts s a = Some aq0" "key = [] \<or> key \<notin> seen s" "row_inv aq0"
  shows "Reserve s now now' rid a amount unit key =
    (let aq = maybeReset now now' aq0 in
     if amount > DailyLimit aq - Used aq - Reserved aq
     then (Inl ErrQuotaExceeded, s\<lparr>accounts := (accounts s)(a \<mapsto> aq)\<rparr>)
     else (Inr \<lparr>rsv_ID = rid, rsv_AccountID = a, rsv_Amount = amount, rsv_Unit = unit\<rparr>,
           s\<lparr>accounts := (accounts s)(a \<mapsto> aq\<lparr>Reserved := wrap64 (Reserved aq + amount)\<rparr>),
             seen := (if key \<noteq> [] then insert key (seen s) else seen s)\<rparr>))"
proof -
  have "row_inv (maybeReset now now' aq0)" using assms(3) by (rule row_inv_maybeReset)
  then have av: "wrap64 (wrap64 (DailyLimit (maybeReset now now' aq0) - Used (maybeReset now now' aq0))
       - Reserved (maybeReset now now' aq0))
     = DailyLimit (maybeReset now now' aq0) - Used (maybeReset now now' aq0)
       - Reserved (maybeReset now now' aq0)"
    by (rule available_exact)
  show ?thesis using assms(1,2)
    by (auto simp: Reserve_def Let_def av)
qed

lemma Reserve_duplicate:
  assumes "key \<noteq> []" "key \<in> seen s"
  shows "Reserve s now now' rid a amount unit key =
     (Inl (Errorf (''inferrouter: duplicate idempotency key '' @ key) None), s)"
  using assms by (simp add: Reserve_def)

lemma Reserve_other_account:
  assumes "b \<noteq> a"
  shows "accounts (snd (Reserve s now now' rid b amount unit key)) a = accounts s a"
  using assms by (auto simp: Reserve_def Let_def split: option.splits)

lemma Reserve_row_inv:
  assumes "accounts s a = Some aq" "row_inv aq" "0 \<le> amount"
  shows "\<exists>aq'. accounts (snd (Reserve s now now' rid b amount unit key)) a = Some aq'
           \<and> row_inv aq' \<and> DailyLimit aq' = DailyLimit aq"
proof (cases "b = a")
  case False
  then show ?thesis using assms by (simp add: Reserve_other_account)
next
  case True
  note ba = this
  show ?thesis
  proof (cases "key \<noteq> [] \<and> key \<in> seen s")
    case True
    then show ?thesis using assms by (simp add: Reserve_duplicate)
  next
    case False
    let ?aq = "maybeReset now now' aq"
    have inv: "row_inv ?aq" using assms(2) by (rule row_inv_maybeReset)
    have lim: "DailyLimit ?aq = DailyLimit aq" by (simp add: maybeReset_def)
    have step: "row_inv (?aq\<lparr>Reserved := wrap64 (Reserved ?aq + amount)\<rparr>)"
      if le: "\<not> amount > DailyLimit ?aq - Used ?aq - Reserved ?aq"
    proof -
      have "in64 (Reserved ?aq + amount)"
        using inv le assms(3) by (simp add: row_inv_def in64_def)
      then have "wrap64 (Reserved ?aq + amount) = Reserved ?aq + amount" by (rule wrap64_id)
      then show ?thesis using inv le assms(3) by (simp add: row_inv_def)
    qed
    have "key = [] \<or> key \<notin> seen s" using False by blast
    from Reserve_configured [OF assms(1) this assms(2), of now now' rid amount unit]
    show ?thesis using ba inv lim step by (simp add: Let_def)
  qed
qed

lemma fst_ReserveSeq_Cons:
  "fst (ReserveSeq s (c # cs)) =
     fst (ReserveCall_run s c) # fst (ReserveSeq (snd (ReserveCall_run s c)) cs)"
  by (simp split: prod.splits)

lemma snd_ReserveSeq_Cons:
  "snd (ReserveSeq s (c # cs)) = snd (ReserveSeq (snd (ReserveCall_run s c)) cs)"
  by (simp split: prod.splits)

lemma ReserveSeq_row_inv:
  assumes "accounts s a = Some aq" "row_inv aq" "\<forall>c\<in>set calls. 0 \<le> rc_amount c"
  shows "\<exists>aq'. accounts (snd (ReserveSeq s calls)) a = Some aq'
           \<and> row_inv aq' \<and> DailyLimit aq' = DailyLimit aq"
  using assms
proof (induction calls arbitrary: s aq)
  case Nil
  then show ?case by simp
next
  case (Cons c cs)
  obtain r s1 where run: "ReserveCall_run s c = (r, s1)" by (cases "ReserveCall_run s c")
  have "0 \<le> rc_amount c" using Cons.prems(3) by simp
  from Reserve_row_inv [OF Cons.prems(1,2) this]
  obtain aq1 where aq1: "accounts s1 a = Some aq1" "row_inv aq1" "DailyLimit aq1 = DailyLimit aq"
    using run unfolding ReserveCall_run_def by (metis snd_conv)
  have "\<forall>c\<in>set cs. 0 \<le> rc_amount c" using Cons.prems(3) by simp
  from Cons.IH [OF aq1(1,2) this] aq1(3) run
  show ?case by (simp add: snd_ReserveSeq_Cons del: ReserveSeq.simps)
qed

lemma Reserve_unit_step:
  assumes "accounts s a = Some aq" "row_inv aq" "now \<le> ResetAt aq" "key = [] \<or> key \<notin> seen s"
  shows "Reserve s now now' rid a 1 unit key =
    (if DailyLimit aq - Used aq - Reserved aq \<le> 0
     then (Inl ErrQuotaExceeded, s)
     else (Inr \<lparr>rsv_ID = rid, rsv_AccountID = a, rsv_Amount = 1, rsv_Unit = unit\<rparr>,
           s\<lparr>accounts := (accounts s)(a \<mapsto> aq\<lparr>Reserved := Reserved aq + 1\<rparr>),
             seen := (if key \<noteq> [] then insert key (seen s) else seen s)\<rparr>))"
proof -
  have nr: "maybeReset now now' aq = aq" using assms(3) by (simp add: maybeReset_def)
  have triv: "s\<lparr>accounts := (accounts s)(a \<mapsto> aq)\<rparr> = s"
    using assms(1) by (simp add: map_upd_triv)
  have w: "DailyLimit aq - Used aq - Reserved aq > 0 \<Longrightarrow> wrap64 (Reserved aq + 1) = Reserved aq + 1"
    using assms(2) by (intro wrap64_id) (simp add: row_inv_def in64_def)
  show ?thesis
    using Reserve_configured [OF assms(1) assms(4) assms(2), of now now' rid 1 unit] w
    by (auto simp: nr triv Let_def)
qed

lemma ReserveSeq_unit_amounts:
  assumes "accounts s a = Some aq" "row_inv aq"
    and "\<forall>c\<in>set calls. rc_account c = a \<and> rc_amount c = 1 \<and> rc_now c \<le> ResetAt aq
           \<and> (rc_key c \<noteq> [] \<longrightarrow> rc_key c \<notin> seen s)"
    and "distinct (filter (\<lambda>k. k \<noteq> []) (map rc_key calls))"
  shows "map outcome (fst (ReserveSeq s calls)) =
     replicate (min (nat (DailyLimit aq - Used aq - Reserved aq)) (length calls)) None @
     replicate (length calls - nat (DailyLimit aq - Used aq - Reserved aq)) (Some ErrQuotaExceeded)"
  using assms
proof (induction calls arbitrary: s aq)
  case Nil
  then show ?case by simp
next
  case (Cons c cs)
  let ?k = "DailyLimit aq - Used aq - Reserved aq"
  have c: "rc_account c = a" "rc_amount c = 1" "rc_now c \<le> ResetAt aq"
    "rc_key c = [] \<or> rc_key c \<notin> seen s"
    using Cons.prems(3) by auto
  have dist: "distinct (filter (\<lambda>k. k \<noteq> []) (map rc_key cs))"
    using Cons.prems(4) by (simp split: if_splits)
  have fresh: "\<forall>d\<in>set cs. rc_key d \<noteq> [] \<longrightarrow> rc_key d \<noteq> rc_key c"
  proof (intro ballI impI notI)
    fix d assume d: "d \<in> set cs" "rc_key d \<noteq> []" "rc_key d = rc_key c"
    then have "rc_key c \<notin> set (filter (\<lambda>k. k \<noteq> []) (map rc_key cs))"
      using Cons.prems(4) by simp
    moreover have "rc_key d \<in> set (filter (\<lambda>k. k \<noteq> []) (map rc_key cs))"
      using d(1,2) by simp
    ultimately show False using d(3) by simp
  qed
  note step = Reserve_unit_step [OF Cons.prems(1,2) c(3,4), of "rc_now' c" "rc_rid c" "rc_unit c"]
  show ?case
  proof (cases "?k \<le> 0")
    case True
    then have run: "ReserveCall_run s c = (Inl ErrQuotaExceeded, s)"
      using step c(1,2) by (simp add: ReserveCall_run_def)
    have rest: "\<forall>c\<in>set cs. rc_account c = a \<and> rc_amount c = 1 \<and> rc_now c \<le> ResetAt aq
           \<and> (rc_key c \<noteq> [] \<longrightarrow> rc_key c \<notin> seen s)"
      using Cons.prems(3) by simp
    from Cons.IH [OF Cons.prems(1,2) rest dist] True run
    show ?thesis by (simp add: fst_ReserveSeq_Cons outcome_def del: ReserveSeq.simps)
  next
    case False
    define aq1 where "aq1 = aq\<lparr>Reserved := Reserved aq + 1\<rparr>"
    define s1 where "s1 = s\<lparr>accounts := (accounts s)(a \<mapsto> aq1),
             seen := (if rc_key c \<noteq> [] then insert (rc_key c) (seen s) else seen s)\<rparr>"
    have run: "ReserveCall_run s c =
        (Inr \<lparr>rsv_ID = rc_rid c, rsv_AccountID = a, rsv_Amount = 1, rsv_Unit = rc_unit c\<rparr>, s1)"
      using step c(1,2) False by (simp add: ReserveCall_run_def s1_def aq1_def)
    have a1: "accounts s1 a = Some aq1" by (simp add: s1_def)
    have inv1: "row_inv aq1" using Cons.prems(2) False by (simp add: row_inv_def aq1_def)
    have rest: "\<forall>d\<in>set cs. rc_account d = a \<and> rc_amount d = 1 \<and> rc_now d \<le> ResetAt aq1
           \<and> (rc_key d \<noteq> [] \<longrightarrow> rc_key d \<notin> seen s1)"
      using Cons.prems(3) fresh by (auto simp: s1_def aq1_def)
    have k1: "DailyLimit aq1 - Used aq1 - Reserved aq1 = ?k - 1" by (simp add: aq1_def)
    have n: "nat ?k = Suc (nat (?k - 1))" using False by simp
    from Cons.IH [OF a1 inv1 rest dist] run
    show ?thesis unfolding k1
      by (simp add: fst_ReserveSeq_Cons outcome_def n del: ReserveSeq.simps)
  qed
qed

text \<open>
  Claim C1, amended.  Take an account row that satisfies the invariant
  \<open>0 \<le> used\<close>, \<open>0 \<le> reserved\<close>, \<open>used + reserved \<le> daily_limit\<close> (with the limit in the
  range of \<open>int64\<close>) and any sequence of \<open>Reserve\<close> calls, on this or other accounts, whose
  amounts are not negative.  After the sequence the row still satisfies the invariant and
  has the same limit.  If moreover the row starts with \<open>used = reserved = 0\<close> and every
  call is \<open>Reserve(account, 1)\<close> made no later than the row's reset time, with an
  idempotency key that is empty or has not been presented before, then the first
  \<open>daily_limit\<close> calls succeed and every further call fails with \<open>ErrQuotaExceeded\<close>.
\<close>

theorem Reserve_never_over_allocates:
  assumes "accounts s a = Some aq" and "row_inv aq"
    and "\<forall>c\<in>set calls. 0 \<le> rc_amount c"
  shows "(\<exists>aq'. accounts (snd (ReserveSeq s calls)) a = Some aq' \<and>
            DailyLimit aq' = DailyLimit aq \<and>
            0 \<le> Used aq' \<and> 0 \<le> Reserved aq' \<and> Used aq' + Reserved aq' \<le> DailyLimit aq') \<and>
         (Used aq = 0 \<and> Reserved aq = 0 \<and>
          (\<forall>c\<in>set calls. rc_account c = a \<and> rc_amount c = 1 \<and> rc_now c \<le> ResetAt aq \<and>
                 (rc_key c \<noteq> [] \<longrightarrow> rc_key c \<notin> seen s)) \<and>
          distinct (filter (\<lambda>k. k \<noteq> []) (map rc_key calls)) \<longrightarrow>
          map outcome (fst (ReserveSeq s calls)) =
            replicate (min (nat (DailyLimit aq)) (length calls)) None @
            replicate (length calls - nat (DailyLimit aq)) (Some ErrQuotaExceeded))"
proof (intro conjI impI)
  from ReserveSeq_row_inv [OF assms]
  show "\<exists>aq'. accounts (snd (ReserveSeq s calls)) a = Some aq' \<and>
            DailyLimit aq' = DailyLimit aq \<and>
            0 \<le> Used aq' \<and> 0 \<le> Reserved aq' \<and> Used aq' + Reserved aq' \<le> DailyLimit aq'"
    by (auto simp: row_inv_def)
next
  assume h: "Used aq = 0 \<and> Reserved aq = 0 \<and>
          (\<forall>c\<in>set calls. rc_account c = a \<and> rc_amount c = 1 \<and> rc_now c \<le> ResetAt aq \<and>
                 (rc_key c \<noteq> [] \<longrightarrow> rc_key c \<notin> seen s)) \<and>
          distinct (filter (\<lambda>k. k \<noteq> []) (map rc_key calls))"
  then have u: "\<forall>c\<in>set calls. rc_account c = a \<and> rc_amount c = 1 \<and> rc_now c \<le> ResetAt aq \<and>
                 (rc_key c \<noteq> [] \<longrightarrow> rc_key c \<notin> seen s)"
    and d: "distinct (filter (\<lambda>k. k \<noteq> []) (map rc_key calls))" by blast+
  from ReserveSeq_unit_amounts [OF assms(1,2) u d] h
  show "map outcome (fst (ReserveSeq s calls)) =
            replicate (min (nat (DailyLimit aq)) (length calls)) None @
            replicate (length calls - nat (DailyLimit aq)) (Some ErrQuotaExceeded)"
    by simp
qed

text \<open>
  The theorem at an account configured with a daily limit of 2 requests and three calls
  \<open>Reserve(acct, 1)\<close>: two succeed, the third fails with \<open>ErrQuotaExceeded\<close>.
\<close>

theorem Reserve_never_over_allocates_witness:
  "map outcome
     (fst (ReserveSeq (SetQuota NewMemoryQuotaStore 0 ''acct'' 2 QuotaRequests)
             [unitCall ''acct'' ''k1'', unitCall ''acct'' [], unitCall ''acct'' ''k3''])) =
     [None, None, Some ErrQuotaExceeded] \<and>
   (\<exists>aq. accounts
           (snd (ReserveSeq (SetQuota NewMemoryQuotaStore 0 ''acct'' 2 QuotaRequests)
                   [unitCall ''acct'' ''k1'', unitCall ''acct'' [], unitCall ''acct'' ''k3'']))
           ''acct'' = Some aq \<and>
         DailyLimit aq = 2 \<and> 0 \<le> Used aq \<and> 0 \<le> Reserved aq \<and> Used aq + Reserved aq \<le> 2)"
proof -
  let ?s = "SetQuota NewMemoryQuotaStore 0 ''acct'' 2 QuotaRequests"
  let ?aq = "\<lparr>DailyLimit = 2, Used = 0, Reserved = 0, Unit = QuotaRequests,
              ResetAt = nextMidnightUTC 0\<rparr>"
  let ?calls = "[unitCall ''acct'' ''k1'', unitCall ''acct'' [], unitCall ''acct'' ''k3'']"
  have row: "accounts ?s ''acct'' = Some ?aq" by (simp add: SetQuota_def)
  have inv: "row_inv ?aq" by (simp add: row_inv_def)
  have amounts: "\<forall>c\<in>set ?calls. 0 \<le> rc_amount c" by (simp add: unitCall_def)
  have units: "Used ?aq = 0 \<and> Reserved ?aq = 0 \<and>
      (\<forall>c\<in>set ?calls. rc_account c = ''acct'' \<and> rc_amount c = 1 \<and> rc_now c \<le> ResetAt ?aq \<and>
             (rc_key c \<noteq> [] \<longrightarrow> rc_key c \<notin> seen ?s)) \<and>
      distinct (filter (\<lambda>k. k \<noteq> []) (map rc_key ?calls))"
    by (simp add: unitCall_def SetQuota_def NewMemoryQuotaStore_def nextMidnightUTC_def
          dayNanos_def)
  note inst = Reserve_never_over_allocates [OF row inv amounts]
  have "map outcome (fst (ReserveSeq ?s ?calls)) =
          replicate (min (nat (DailyLimit ?aq)) (length ?calls)) None @
          replicate (length ?calls - nat (DailyLimit ?aq)) (Some ErrQuotaExceeded)"
    using inst units by blast
  then have first: "map outcome (fst (ReserveSeq ?s ?calls)) = [None, None, Some ErrQuotaExceeded]"
    by (simp add: numeral_2_eq_2 del: ReserveSeq.simps)
  have second: "\<exists>aq. accounts (snd (ReserveSeq ?s ?calls)) ''acct'' = Some aq \<and>
         DailyLimit aq = 2 \<and> 0 \<le> Used aq \<and> 0 \<le> Reserved aq \<and> Used aq + Reserved aq \<le> 2"
  proof -
    from inst obtain aq' where
      "accounts (snd (ReserveSeq ?s ?calls)) ''acct'' = Some aq'"
      "DailyLimit aq' = DailyLimit ?aq" "0 \<le> Used aq'" "0 \<le> Reserved aq'"
      "Used aq' + Reserved aq' \<le> DailyLimit aq'"
      by blast
    then show ?thesis by (intro exI [of _ aq']) (simp del: ReserveSeq.simps)
  qed
  show ?thesis using first second by blast
qed

lemma wrap64_small [simp]: "wrap64 0 = 0" "wrap64 1 = 1" "wrap64 2 = 2" "wrap64 3 = 3"
  "wrap64 7 = 7" "wrap64 9 = 9" "wrap64 10 = 10" "wrap64 (- 5) = - 5" "wrap64 (-7) = -7"
  by (simp_all add: wrap64_def)

text \<open>
  Claim C1 as stated fails at three inputs.  On a fresh row with a daily limit of 10,
  \<open>Reserve(acct, -5)\<close> succeeds and leaves \<open>reserved = -5\<close>.  With a daily limit of 2,
  three calls \<open>Reserve(acct, 1)\<close> that present the same key \<open>k\<close> give one success and
  two duplicate-key errors.  With a daily limit of 1, a call \<open>Reserve(acct, 1)\<close> before
  the row's reset time and one after it both succeed.
\<close>

theorem Reserve_sequence_counterexample:
  "fst (Reserve (SetQuota NewMemoryQuotaStore 0 ''acct'' 10 QuotaTokens)
          1 1 ''r1'' ''acct'' (- 5) QuotaTokens []) =
     Inr \<lparr>rsv_ID = ''r1'', rsv_AccountID = ''acct'', rsv_Amount = - 5, rsv_Unit = QuotaTokens\<rparr> \<and>
   map_option Reserved
     (accounts (snd (Reserve (SetQuota NewMemoryQuotaStore 0 ''acct'' 10 QuotaTokens)
                       1 1 ''r1'' ''acct'' (- 5) QuotaTokens [])) ''acct'') = Some (- 5) \<and>
   map outcome
     (fst (ReserveSeq (SetQuota NewMemoryQuotaStore 0 ''acct'' 2 QuotaRequests)
             [unitCall ''acct'' ''k'', unitCall ''acct'' ''k'', unitCall ''acct'' ''k''])) =
     [None,
      Some (Errorf ''inferrouter: duplicate idempotency key k'' None),
      Some (Errorf ''inferrouter: duplicate idempotency key k'' None)] \<and>
   map outcome
     (fst (ReserveSeq (SetQuota NewMemoryQuotaStore 0 ''acct'' 1 QuotaRequests)
             [unitCall ''acct'' [],
              (unitCall ''acct'' [])\<lparr>rc_now := dayNanos + 1, rc_now' := dayNanos + 1\<rparr>])) =
     [None, None]"
  by (simp add: Reserve_def SetQuota_def NewMemoryQuotaStore_def maybeReset_def
        nextMidnightUTC_def dayNanos_def Let_def ReserveCall_run_def unitCall_def outcome_def)

subsection \<open>Idempotency keys\<close>

text \<open>
  On a configured account a successful \<open>Reserve\<close> records its key, so every later
  \<open>Reserve\<close> with that key is rejected as a duplicate; a \<open>Reserve\<close> that fails with
  \<open>ErrQuotaExceeded\<close> records nothing.
\<close>

lemma Reserve_success_then_duplicate:
  assumes "accounts s a \<noteq> None" and "key \<noteq> []"
    and "Reserve s now now' rid a amount unit key = (Inr r, s1)"
  shows "Reserve s1 t t' rid2 b amount2 unit2 key =
           (Inl (Errorf (''inferrouter: duplicate idempotency key '' @ key) None), s1)"
proof -
  have "key \<in> seen s1"
    using assms by (auto simp: Reserve_def Let_def split: if_splits option.splits)
  then show ?thesis using assms(2) by (simp add: Reserve_def)
qed

lemma Reserve_QuotaExceeded_keeps_seen:
  assumes "Reserve s now now' rid a amount unit key = (Inl ErrQuotaExceeded, s1)"
  shows "seen s1 = seen s"
  using assms by (auto simp: Reserve_def Let_def split: if_splits option.splits)

text \<open>
  Claim C3 at an account without a configured row: \<open>Reserve\<close> returns the synthetic
  reservation before the key is recorded, so two calls with the same non-empty key
  \<open>key-1\<close> both succeed.
\<close>

theorem Reserve_unconfigured_same_key_twice:
  "outcome (fst (Reserve NewMemoryQuotaStore 1 1 ''r1'' ''acct'' 100 QuotaTokens ''key-1'')) = None \<and>
   outcome (fst (Reserve
                   (snd (Reserve NewMemoryQuotaStore 1 1 ''r1'' ''acct'' 100 QuotaTokens ''key-1''))
                   2 2 ''r2'' ''acct'' 100 QuotaTokens ''key-1'')) = None"
  by (simp add: Reserve_def NewMemoryQuotaStore_def outcome_def)

subsection \<open>Remaining\<close>

lemma usedStore_row:
  "accounts usedStore ''acct'' =
     Some \<lparr>DailyLimit = 10, Used = 7, Reserved = 2, Unit = QuotaTokens, ResetAt = dayNanos\<rparr>"
  by (simp add: usedStore_def Reserve_def Commit_def SetQuota_def NewMemoryQuotaStore_def
        maybeReset_def nextMidnightUTC_def dayNanos_def Let_def)

lemma Remaining_unconfigured: "accounts s a = None \<Longrightarrow> Remaining s a = (0, None)"
  by (simp add: Remaining_def)

lemma Remaining_configured:
  assumes "accounts s a = Some aq" and "in64 (DailyLimit aq - Used aq)"
    and "in64 (DailyLimit aq - Used aq - Reserved aq)"
  shows "Remaining s a = (max 0 (DailyLimit aq - Used aq - Reserved aq), None)"
  using assms by (simp add: Remaining_def Let_def wrap64_id max_def)

text \<open>
  Claim C6 at \<open>usedStore\<close>, whose row (limit 10, used 7, reserved 2) is due for its
  daily reset from \<open>dayNanos\<close> on: \<open>Remaining\<close> reads no clock and returns 1 whatever the
  time, while \<open>maybeReset\<close> at \<open>dayNanos + 1\<close> clears \<open>used\<close> and \<open>reserved\<close>.
\<close>

theorem Remaining_ignores_due_reset:
  "map_option ResetAt (accounts usedStore ''acct'') = Some dayNanos \<and>
   Remaining usedStore ''acct'' = (1, None) \<and>
   map_option (\<lambda>aq. (Used (maybeReset (dayNanos + 1) (dayNanos + 1) aq),
                      Reserved (maybeReset (dayNanos + 1) (dayNanos + 1) aq)))
     (accounts usedStore ''acct'') = Some (0, 0)"
  by (simp add: usedStore_row Remaining_def maybeReset_def Let_def)

subsection \<open>Reserve followed by Rollback\<close>

text \<open>
  When the daily reset of the row is not due, \<open>Reserve\<close> followed by \<open>Rollback\<close> of the
  returned reservation restores \<open>Remaining\<close>, also when the addition wraps around.
\<close>

lemma wrap64_cancel: "wrap64 (wrap64 (r + x) - x) = wrap64 r"
proof -
  define M :: int where "M = 2 ^ 64"
  define H :: int where "H = 2 ^ 63"
  have w: "wrap64 a = (a + H) mod M - H" for a by (simp add: wrap64_def M_def H_def)
  have "wrap64 (wrap64 (r + x) - x) = ((r + x + H) mod M - H - x + H) mod M - H"
    by (simp only: w)
  also have "(r + x + H) mod M - H - x + H = (r + x + H) mod M - x" by simp
  also have "((r + x + H) mod M - x) mod M = (r + x + H - x) mod M" by (rule mod_diff_left_eq)
  also have "r + x + H - x = r + H" by simp
  finally show ?thesis by (simp only: w)
qed

lemma Reserve_Rollback_Remaining_no_reset:
  assumes "accounts s a = Some aq" and "now \<le> ResetAt aq" and "in64 (Reserved aq)"
    and "Reserve s now now' rid a x unit k = (Inr r, s1)"
  shows "Remaining (snd (Rollback s1 r)) a = Remaining s a"
proof -
  have nr: "maybeReset now now' aq = aq" using assms(2) by (simp add: maybeReset_def)
  have restored: "wrap64 (wrap64 (Reserved aq + x) - x) = Reserved aq"
    using assms(3) by (simp add: wrap64_cancel wrap64_id)
  have "accounts s1 a = Some (aq\<lparr>Reserved := wrap64 (Reserved aq + x)\<rparr>) \<and> rsv_Amount r = x
          \<and> rsv_AccountID r = a"
    using assms(1,4) nr by (auto simp: Reserve_def Let_def split: if_splits)
  then show ?thesis using assms(1) restored
    by (simp add: Rollback_def Remaining_def Let_def)
qed

text \<open>
  Claim C7 at \<open>usedStore\<close> and time \<open>dayNanos + 1\<close>: \<open>Remaining\<close> is 1 before the
  \<open>Reserve\<close>; the \<open>Reserve\<close> of 1 token succeeds and resets the row; after \<open>Rollback\<close>
  of the reservation \<open>Remaining\<close> is 10.
\<close>

theorem Reserve_Rollback_changes_Remaining:
  "Remaining usedStore ''acct'' = (1, None) \<and>
   fst (Reserve usedStore (dayNanos + 1) (dayNanos + 1) ''r3'' ''acct'' 1 QuotaTokens ''k3'') =
     Inr \<lparr>rsv_ID = ''r3'', rsv_AccountID = ''acct'', rsv_Amount = 1, rsv_Unit = QuotaTokens\<rparr> \<and>
   Remaining
     (snd (Rollback
        (snd (Reserve usedStore (dayNanos + 1) (dayNanos + 1) ''r3'' ''acct'' 1 QuotaTokens ''k3''))
        \<lparr>rsv_ID = ''r3'', rsv_AccountID = ''acct'', rsv_Amount = 1, rsv_Unit = QuotaTokens\<rparr>))
     ''acct'' = (10, None)"
proof -
  have k: "''k3'' \<notin> seen usedStore"
    by (simp add: usedStore_def Reserve_def Commit_def SetQuota_def NewMemoryQuotaStore_def
        maybeReset_def nextMidnightUTC_def dayNanos_def Let_def)
  show ?thesis using k
    by (simp add: usedStore_row Remaining_def Reserve_def Rollback_def maybeReset_def Let_def)
qed

subsection \<open>SetQuota on an existing row\<close>

text \<open>
  The Redis store's \<open>SetQuota\<close> on an existing hash writes \<open>daily_limit\<close> and
  \<open>unit\<close> and leaves every other field, \<open>used\<close> and \<open>reserved\<close> among them.
\<close>

lemma redis_SetQuota_preserves:
  assumes "client (keyPrefix @ accountID) = Some h"
  shows "redis_SetQuota client keyPrefix now accountID dailyLimit unit (keyPrefix @ accountID) =
           Some (h(''daily_limit'' \<mapsto> RInt dailyLimit, ''unit'' \<mapsto> RStr unit))"
  using assms by (simp add: redis_SetQuota_def HSet_def Let_def)

text \<open>
  Claim C9 at \<open>usedStore\<close>: the in-memory \<open>SetQuota\<close> replaces the row (limit 10,
  used 7, reserved 2) by a new one with \<open>used = reserved = 0\<close>.
\<close>

theorem SetQuota_discards_usage:
  "map_option (\<lambda>aq. (DailyLimit aq, Used aq, Reserved aq)) (accounts usedStore ''acct'') =
     Some (10, 7, 2) \<and>
   map_option (\<lambda>aq. (DailyLimit aq, Used aq, Reserved aq))
     (accounts (SetQuota usedStore 3 ''acct'' 20 QuotaRequests) ''acct'') = Some (20, 0, 0)"
  by (simp add: usedStore_row SetQuota_def)

section \<open>Properties of the health tracker\<close>

lemma GetHealth_unknown:
  "h_accounts h a = None \<Longrightarrow> GetHealth h now a = (HealthHealthy, h)"
  by (simp add: GetHealth_def)

lemma GetHealth_other: "h_accounts (snd (GetHealth h now b)) a = None \<longleftrightarrow> h_accounts h a = None"
  by (auto simp: GetHealth_def split: option.splits)

lemma RecordSuccess_other:
  "a \<noteq> b \<Longrightarrow> h_accounts (RecordSuccess h b) a = h_accounts h a"
  by (auto simp: RecordSuccess_def getOrCreate_def Let_def split: option.splits)

lemma RecordFailure_other:
  "a \<noteq> b \<Longrightarrow> h_accounts (RecordFailure h now b) a = h_accounts h a"
  by (auto simp: RecordFailure_def getOrCreate_def Let_def split: option.splits)

lemma HealthOp_run_untouched:
  assumes "\<not> records a op" "h_accounts h a = None"
  shows "h_accounts (HealthOp_run h op) a = None"
  using assms by (cases op) (simp_all add: GetHealth_other RecordSuccess_other RecordFailure_other)

lemma foldl_HealthOp_run_untouched:
  assumes "\<forall>op\<in>set ops. \<not> records a op" "h_accounts h a = None"
  shows "h_accounts (foldl HealthOp_run h ops) a = None"
  using assms by (induction ops arbitrary: h) (simp_all add: HealthOp_run_untouched)

lemma RecordFailure_unknown:
  assumes "h_accounts h a = None"
  shows "map_option failures (h_accounts (RecordFailure h now a) a) = Some [now]"
  using assms by (simp add: RecordFailure_def getOrCreate_def Let_def)

text \<open>
  Claim C10.  After any history of a new tracker in which neither \<open>RecordSuccess\<close> nor
  \<open>RecordFailure\<close> was called for the account, \<open>GetHealth\<close> returns \<open>HealthHealthy\<close> and
  leaves the tracker as it was, with no record for the account; a \<open>RecordFailure\<close> that
  follows leaves exactly its own timestamp in the failure window.
\<close>

theorem GetHealth_untracked_account:
  assumes "\<forall>op\<in>set ops. \<not> records a op"
  shows "GetHealth (foldl HealthOp_run (NewHealthTrackerWithConfig cfg) ops) now a =
           (HealthHealthy, foldl HealthOp_run (NewHealthTrackerWithConfig cfg) ops) \<and>
         h_accounts (foldl HealthOp_run (NewHealthTrackerWithConfig cfg) ops) a = None \<and>
         map_option failures
           (h_accounts
              (RecordFailure
                 (snd (GetHealth (foldl HealthOp_run (NewHealthTrackerWithConfig cfg) ops) now a))
                 now' a) a) = Some [now']"
proof -
  let ?h = "foldl HealthOp_run (NewHealthTrackerWithConfig cfg) ops"
  have none: "h_accounts ?h a = None"
    using assms by (intro foldl_HealthOp_run_untouched) (simp_all add: NewHealthTrackerWithConfig_def)
  then show ?thesis
    by (simp add: GetHealth_unknown RecordFailure_unknown)
qed

text \<open>
  The theorem after a history that touches another account and reads the health of
  \<open>fresh\<close>.
\<close>

theorem GetHealth_untracked_account_witness:
  "GetHealth
     (foldl HealthOp_run NewHealthTracker
        [OpRecordFailure 5 ''other'', OpGetHealth 6 ''fresh'', OpRecordSuccess ''other''])
     7 ''fresh'' =
     (HealthHealthy,
      foldl HealthOp_run NewHealthTracker
        [OpRecordFailure 5 ''other'', OpGetHealth 6 ''fresh'', OpRecordSuccess ''other'']) \<and>
   map_option failures
     (h_accounts
        (RecordFailure
           (snd (GetHealth
              (foldl HealthOp_run NewHealthTracker
                 [OpRecordFailure 5 ''other'', OpGetHealth 6 ''fresh'', OpRecordSuccess ''other''])
              7 ''fresh''))
           8 ''fresh'') ''fresh'') = Some [8]"
proof -
  have h: "\<forall>op\<in>set [OpRecordFailure 5 ''other'', OpGetHealth 6 ''fresh'', OpRecordSuccess ''other''].
             \<not> records ''fresh'' op"
    by simp
  show ?thesis
    using GetHealth_untracked_account [OF h, of DefaultHealthConfig 7 8]
    unfolding NewHealthTracker_def by blast
qed

section \<open>Properties of the candidate filter\<close>

text \<open>
  \<open>filterCandidates\<close> keeps, in order, the candidates that are not Unhealthy and are
  free or allowed as paid; it reads neither \<open>MaxDailySpend\<close> nor \<open>CurrentSpend\<close>.
\<close>

lemma filterCandidates_filter:
  "filterCandidates cs allowPaid =
     filter (\<lambda>c. Health c \<noteq> HealthUnhealthy \<and> (Free c \<or> allowPaid)) cs"
  by (induction cs) auto


section \<open>Properties of FreeFirstPolicy\<close>

text \<open>
  For a comparison that is the strict order of a key, the insertion sort returns what
  every stable sort by that key returns.
\<close>

lemma mset_bubbleLeft: "mset (bubbleLeft lt x rp) = add_mset x (mset rp)"
  by (induction rp) auto

lemma set_bubbleLeft: "set (bubbleLeft lt x rp) = insert x (set rp)"
  by (induction rp) auto

lemma descending_bubbleLeft:
  fixes f :: "'a \<Rightarrow> 'k::linorder"
  assumes key: "\<And>x y. lt x y \<longleftrightarrow> f x < f y"
    and "sorted_wrt (\<lambda>a b. f b \<le> f a) rp"
  shows "sorted_wrt (\<lambda>a b. f b \<le> f a) (bubbleLeft lt x rp)"
  using assms(2)
proof (induction rp)
  case Nil
  then show ?case by simp
next
  case (Cons y rp)
  show ?case
  proof (cases "lt x y")
    case True
    then have "f x \<le> f y" using key by (simp add: less_imp_le)
    then show ?thesis using True Cons by (auto simp: set_bubbleLeft)
  next
    case False
    then have "f y \<le> f x" using key by (simp add: not_less)
    then show ?thesis using False Cons.prems by auto
  qed
qed

lemma filter_bubbleLeft:
  fixes f :: "'a \<Rightarrow> 'k::linorder"
  assumes key: "\<And>x y. lt x y \<longleftrightarrow> f x < f y"
  shows "filter (\<lambda>y. f y = k) (bubbleLeft lt x rp) = filter (\<lambda>y. f y = k) (x # rp)"
proof (induction rp)
  case Nil
  show ?case by simp
next
  case (Cons y rp)
  show ?case
  proof (cases "lt x y")
    case True
    then have "f x \<noteq> f y" using key by auto
    then show ?thesis using True Cons by auto
  next
    case False
    then show ?thesis by simp
  qed
qed

lemma foldl_bubbleLeft_props:
  fixes f :: "'a \<Rightarrow> 'k::linorder"
  assumes key: "\<And>x y. lt x y \<longleftrightarrow> f x < f y"
  shows "mset (foldl (\<lambda>rp x. bubbleLeft lt x rp) rp0 xs) = mset xs + mset rp0"
    and "sorted_wrt (\<lambda>a b. f b \<le> f a) rp0 \<Longrightarrow>
           sorted_wrt (\<lambda>a b. f b \<le> f a) (foldl (\<lambda>rp x. bubbleLeft lt x rp) rp0 xs)"
    and "filter (\<lambda>y. f y = k) (foldl (\<lambda>rp x. bubbleLeft lt x rp) rp0 xs)
           = filter (\<lambda>y. f y = k) (rev xs @ rp0)"
proof -
  show "mset (foldl (\<lambda>rp x. bubbleLeft lt x rp) rp0 xs) = mset xs + mset rp0"
    by (induction xs arbitrary: rp0) (simp_all add: mset_bubbleLeft)
  show "sorted_wrt (\<lambda>a b. f b \<le> f a) rp0 \<Longrightarrow>
           sorted_wrt (\<lambda>a b. f b \<le> f a) (foldl (\<lambda>rp x. bubbleLeft lt x rp) rp0 xs)"
    by (induction xs arbitrary: rp0) (simp_all add: descending_bubbleLeft [of lt f, OF key])
  show "filter (\<lambda>y. f y = k) (foldl (\<lambda>rp x. bubbleLeft lt x rp) rp0 xs)
           = filter (\<lambda>y. f y = k) (rev xs @ rp0)"
    by (induction xs arbitrary: rp0) (simp_all add: filter_bubbleLeft [of lt f, OF key])
qed

lemma SliceStable_sort_key:
  fixes f :: "'a \<Rightarrow> 'k::linorder"
  assumes key: "\<And>x y. lt x y \<longleftrightarrow> f x < f y"
  shows "SliceStable lt xs = sort_key f xs"
proof (rule properties_for_sort_key [symmetric])
  show "mset (SliceStable lt xs) = mset xs"
    by (simp add: SliceStable_def foldl_bubbleLeft_props(1) [of lt f, OF key])
  show "sorted (map f (SliceStable lt xs))"
    using foldl_bubbleLeft_props(2) [of lt f "[]" xs, OF key]
    by (simp add: SliceStable_def sorted_map sorted_wrt_rev)
  show "filter (\<lambda>x. f k = f x) (SliceStable lt xs) = filter (\<lambda>x. f k = f x) xs" for k
  proof -
    have "filter (\<lambda>y. f y = f k) (SliceStable lt xs) = filter (\<lambda>y. f y = f k) xs"
      using foldl_bubbleLeft_props(3) [of lt f "f k" "[]" xs, OF key]
      by (simp add: SliceStable_def rev_filter [symmetric])
    moreover have "(\<lambda>x. f k = f x) = (\<lambda>y. f y = f k)" by auto
    ultimately show ?thesis by simp
  qed
qed





text \<open>
  Any list that is a permutation of the input, sorted by the comparison and with the ties
  in their input order, which is what \<open>sort.SliceStable\<close> is documented to return, is the
  list that the insertion sort returns.
\<close>

lemma SliceStable_unique:
  fixes f :: "'a \<Rightarrow> 'k::linorder"
  assumes key: "\<And>x y. lt x y \<longleftrightarrow> f x < f y"
    and "mset ys = mset xs"
    and "sorted_wrt (\<lambda>a b. \<not> lt b a) ys"
    and "\<And>k. filter (\<lambda>y. f y = f k) ys = filter (\<lambda>y. f y = f k) xs"
  shows "ys = SliceStable lt xs"
proof -
  have "sorted (map f ys)"
    using assms(3) by (simp add: sorted_map key not_less)
  moreover have "filter (\<lambda>x. f k = f x) ys = filter (\<lambda>x. f k = f x) xs" for k
  proof -
    have "(\<lambda>x. f k = f x) = (\<lambda>y. f y = f k)" by auto
    then show ?thesis using assms(4) [of k] by simp
  qed
  ultimately have "sort_key f xs = ys"
    using assms(2) by (intro properties_for_sort_key) auto
  then show ?thesis by (simp add: SliceStable_sort_key [of lt f, OF key])
qed

text \<open>
  \<open>tie\<close> and \<open>in_policy_order\<close> in terms of the comparison of the source.
\<close>

lemma tie_iff: "tie a b \<longleftrightarrow> \<not> FreeFirst_less a b \<and> \<not> FreeFirst_less b a"
  by (auto simp: tie_def FreeFirst_less_def)

lemma in_policy_order_iff: "in_policy_order a b \<longleftrightarrow> \<not> FreeFirst_less b a"
  by (auto simp: in_policy_order_def FreeFirst_less_def)



section \<open>Properties of the attempt loop\<close>

lemma IsRetryable_not_fatal: "IsRetryable err \<Longrightarrow> \<not> IsFatal err"
proof -
  have "errors_Is err t \<Longrightarrow> errors_Is err t' \<Longrightarrow>
      t \<in> {ErrRateLimited, ErrProviderUnavailable, ErrQuotaExceeded} \<Longrightarrow>
      t' \<in> {ErrAuthFailed, ErrInvalidRequest} \<Longrightarrow> False" for t t'
    by (induction err t rule: errors_Is.induct) auto
  then show "IsRetryable err \<Longrightarrow> \<not> IsFatal err"
    unfolding IsRetryable_def IsFatal_def by blast
qed

lemma attemptLoop_append:
  "attemptLoop E req est k (xs @ ys) l w =
     (case attemptLoop E req est k xs l w of
        (Returned r, w1) \<Rightarrow> (Returned r, w1)
      | (Exhausted l1, w1) \<Rightarrow> attemptLoop E req est (k + int (length xs)) ys l1 w1)"
proof (induction xs arbitrary: k l w)
  case Nil
  show ?case by simp
next
  case (Cons x xs)
  show ?case
  proof (cases "attemptBody E req est k x w")
    case (Pair st w1)
    then show ?thesis
      by (cases st) (simp_all add: Cons.IH add.assoc split: prod.splits LoopExit.splits)
  qed
qed

lemma attemptLoop_Exhausted_lastErr:
  assumes "attemptLoop E req est k xs l w = (Exhausted l1, w1)" "xs \<noteq> [] \<or> l \<noteq> None"
  shows "l1 \<noteq> None"
  using assms
proof (induction xs arbitrary: k l w)
  case Nil
  then show ?case by simp
next
  case (Cons x xs)
  show ?case
  proof (cases "attemptBody E req est k x w")
    case (Pair st w2)
    show ?thesis
    proof (cases st)
      case (Continue err)
      then have "attemptLoop E req est (k + 1) xs (Some err) w2 = (Exhausted l1, w1)"
        using Cons.prems(1) Pair by simp
      then show ?thesis by (rule Cons.IH) simp
    next
      case (Return r)
      then show ?thesis using Cons.prems(1) Pair by simp
    qed
  qed
qed

lemma w_calls_reserveFor: "w_calls (snd (reserveFor E est c w)) = w_calls w"
  by (simp add: reserveFor_def newUUID_def Let_def split: prod.splits)

lemma w_calls_callProvider:
  "w_calls (snd (callProvider E req est k c w)) = w_calls w @ [(Provider c, providerRequest req c)]"
  by (simp add: callProvider_def timeNow_def Let_def split: prod.splits)

lemma w_calls_onProviderError: "w_calls (onProviderError E c rsv err d w) = w_calls w"
  by (simp add: onProviderError_def timeNow_def Let_def split: prod.splits)

lemma w_calls_onSuccess: "w_calls (onSuccess E c rsv resp d w) = w_calls w"
  by (simp add: onSuccess_def Let_def split: prod.splits)

lemma attemptBody_reserve_failed:
  assumes "reserveFor E est c w = (Inl err, w1)"
  shows "attemptBody E req est k c w = (Continue err, w1)"
  using assms by (simp add: attemptBody_def)

lemma attemptBody_provider_failed:
  assumes "reserveFor E est c w = (Inr rsv, w1)"
    and "callProvider E req est k c w1 = ((Inl err, d), w2)"
  shows "attemptBody E req est k c w =
     (if IsFatal err
      then Return (Inl (RouterError err (Provider c) (AccountID c) (Model c) (k + 1)))
      else Continue err, onProviderError E c rsv err d w2)"
  using assms by (simp add: attemptBody_def Let_def)

lemma attemptBody_calls:
  "w_calls (snd (attemptBody E req est k c w)) = w_calls w \<or>
   w_calls (snd (attemptBody E req est k c w)) = w_calls w @ [(Provider c, providerRequest req c)]"
proof (cases "reserveFor E est c w")
  case (Pair r w1)
  note r = this
  have c1: "w_calls w1 = w_calls w" using w_calls_reserveFor [of E est c w] r by simp
  show ?thesis
  proof (cases r)
    case (Inl err)
    then show ?thesis using r c1 by (simp add: attemptBody_def)
  next
    case (Inr rsv)
    obtain res d w2 where p: "callProvider E req est k c w1 = ((res, d), w2)"
      by (metis surj_pair)
    have c2: "w_calls w2 = w_calls w @ [(Provider c, providerRequest req c)]"
      using w_calls_callProvider [of E req est k c w1] p c1 by simp
    show ?thesis using r Inr p c2
      by (cases res) (simp_all add: attemptBody_def Let_def w_calls_onProviderError w_calls_onSuccess)
  qed
qed

lemma attemptLoop_calls:
  "\<exists>cs. subseq cs xs \<and>
     w_calls (snd (attemptLoop E req est k xs l w)) =
       w_calls w @ map (\<lambda>c. (Provider c, providerRequest req c)) cs"
proof (induction xs arbitrary: k l w)
  case Nil
  show ?case by simp
next
  case (Cons x xs)
  obtain st w1 where b: "attemptBody E req est k x w = (st, w1)" by (metis surj_pair)
  from attemptBody_calls [of E req est k x w] b
  obtain ys where ys: "subseq ys [x]"
      "w_calls w1 = w_calls w @ map (\<lambda>c. (Provider c, providerRequest req c)) ys"
  proof -
    have "w_calls w1 = w_calls w \<or> w_calls w1 = w_calls w @ [(Provider x, providerRequest req x)]"
      using attemptBody_calls [of E req est k x w] b by simp
    then show ?thesis
    proof
      assume "w_calls w1 = w_calls w"
      then show ?thesis using that [of "[]"] by simp
    next
      assume "w_calls w1 = w_calls w @ [(Provider x, providerRequest req x)]"
      then show ?thesis using that [of "[x]"] by simp
    qed
  qed
  show ?case
  proof (cases st)
    case (Return r)
    have "subseq (ys @ []) ([x] @ xs)" using ys(1) by (intro list_emb_append_mono) simp_all
    then have "subseq ys (x # xs)" by simp
    then show ?thesis using b Return ys(2) by auto
  next
    case (Continue err)
    from Cons.IH [of "k + 1" "Some err" w1]
    obtain cs where cs: "subseq cs xs"
      "w_calls (snd (attemptLoop E req est (k + 1) xs (Some err) w1)) =
         w_calls w1 @ map (\<lambda>c. (Provider c, providerRequest req c)) cs" by blast
    have "subseq (ys @ cs) ([x] @ xs)" using ys(1) cs(1) by (rule list_emb_append_mono)
    then show ?thesis using b Continue ys(2) cs(2) by (intro exI [of _ "ys @ cs"]) simp
  qed
qed

text \<open>
  Claim C2.  Let the loop have tried the candidates \<open>pre\<close> without returning, reaching
  the world \<open>w1\<close>, and let \<open>c\<close> be the next candidate, at attempt
  \<open>length pre + 1\<close>.
  \<^item> If the reservation for \<open>c\<close> succeeds and its provider returns a fatal error, the
    result is the \<open>RouterError\<close> wrapping that error with this attempt number; the world is
    the one left by the error handling of \<open>c\<close>, and the provider invocations are those
    made before plus the one of \<open>c\<close>: no later candidate is invoked.
  \<^item> If its provider returns an error that is not fatal, or if the reservation fails (in
    which case no provider is invoked), the result is that of continuing the loop with the
    candidates after \<open>c\<close> and \<open>lastErr\<close> set to the error.
  \<^item> If \<open>pre\<close> is the whole list, the result is \<open>RouterError{ErrAllFailed, Attempts:
    len(ordered)}\<close> when the list is not empty and \<open>ErrNoCandidates\<close> when it is.
  \<^item> The providers invoked for \<open>pre\<close> are a subsequence of \<open>pre\<close>, in order.
\<close>

theorem ChatCompletion_attempt_loop:
  assumes tried: "attemptLoop E req est 0 pre None w = (Exhausted l, w1)"
  shows
   "(reserveFor E est c w1 = (Inr rsv, w2) \<and>
     callProvider E req est (int (length pre)) c w2 = ((Inl err, d), w3) \<and> IsFatal err \<longrightarrow>
       ChatCompletion_attempts E req est (pre @ c # post) w =
         (Inl (RouterError err (Provider c) (AccountID c) (Model c) (int (length pre) + 1)),
          onProviderError E c rsv err d w3) \<and>
       w_calls (onProviderError E c rsv err d w3) =
         w_calls w1 @ [(Provider c, providerRequest req c)]) \<and>
    (reserveFor E est c w1 = (Inr rsv, w2) \<and>
     callProvider E req est (int (length pre)) c w2 = ((Inl err, d), w3) \<and> \<not> IsFatal err \<longrightarrow>
       ChatCompletion_attempts E req est (pre @ c # post) w =
         afterLoop (pre @ c # post)
           (attemptLoop E req est (int (length pre) + 1) post (Some err)
              (onProviderError E c rsv err d w3))) \<and>
    (reserveFor E est c w1 = (Inl err, w2) \<longrightarrow>
       ChatCompletion_attempts E req est (pre @ c # post) w =
         afterLoop (pre @ c # post)
           (attemptLoop E req est (int (length pre) + 1) post (Some err) w2) \<and>
       w_calls w2 = w_calls w1) \<and>
    ChatCompletion_attempts E req est pre w =
      (if pre \<noteq> [] then Inl (RouterError ErrAllFailed [] [] [] (int (length pre)))
       else Inl ErrNoCandidates, w1) \<and>
    (\<exists>cs. subseq cs pre \<and>
       w_calls w1 = w_calls w @ map (\<lambda>c. (Provider c, providerRequest req c)) cs)"
proof -
  have split: "attemptLoop E req est 0 (pre @ c # post) None w =
      attemptLoop E req est (int (length pre)) (c # post) l w1"
    using tried by (simp add: attemptLoop_append)
  have fatal: "ChatCompletion_attempts E req est (pre @ c # post) w =
         (Inl (RouterError err (Provider c) (AccountID c) (Model c) (int (length pre) + 1)),
          onProviderError E c rsv err d w3) \<and>
       w_calls (onProviderError E c rsv err d w3) =
         w_calls w1 @ [(Provider c, providerRequest req c)]"
    if r: "reserveFor E est c w1 = (Inr rsv, w2)"
      and p: "callProvider E req est (int (length pre)) c w2 = ((Inl err, d), w3)"
      and f: "IsFatal err"
  proof -
    have "w_calls w2 = w_calls w1" using w_calls_reserveFor [of E est c w1] r by simp
    moreover have "w_calls w3 = w_calls w2 @ [(Provider c, providerRequest req c)]"
      using w_calls_callProvider [of E req est "int (length pre)" c w2] p by simp
    ultimately show ?thesis
      using attemptBody_provider_failed [OF r p] f
      by (simp add: ChatCompletion_attempts_def split afterLoop_def w_calls_onProviderError)
  qed
  have retry: "ChatCompletion_attempts E req est (pre @ c # post) w =
         afterLoop (pre @ c # post)
           (attemptLoop E req est (int (length pre) + 1) post (Some err)
              (onProviderError E c rsv err d w3))"
    if r: "reserveFor E est c w1 = (Inr rsv, w2)"
      and p: "callProvider E req est (int (length pre)) c w2 = ((Inl err, d), w3)"
      and f: "\<not> IsFatal err"
    using attemptBody_provider_failed [OF r p] f
    by (simp add: ChatCompletion_attempts_def split)
  have noquota: "ChatCompletion_attempts E req est (pre @ c # post) w =
         afterLoop (pre @ c # post)
           (attemptLoop E req est (int (length pre) + 1) post (Some err) w2) \<and>
       w_calls w2 = w_calls w1"
    if r: "reserveFor E est c w1 = (Inl err, w2)"
    using attemptBody_reserve_failed [OF r] w_calls_reserveFor [of E est c w1] r
    by (simp add: ChatCompletion_attempts_def split)
  have ended: "ChatCompletion_attempts E req est pre w =
      (if pre \<noteq> [] then Inl (RouterError ErrAllFailed [] [] [] (int (length pre)))
       else Inl ErrNoCandidates, w1)"
  proof (cases "pre = []")
    case True
    then show ?thesis using tried by (simp add: ChatCompletion_attempts_def afterLoop_def)
  next
    case False
    then have "l \<noteq> None" using attemptLoop_Exhausted_lastErr [OF tried] by simp
    then show ?thesis using False tried by (simp add: ChatCompletion_attempts_def afterLoop_def)
  qed
  have calls: "\<exists>cs. subseq cs pre \<and>
       w_calls w1 = w_calls w @ map (\<lambda>c. (Provider c, providerRequest req c)) cs"
    using attemptLoop_calls [of pre E req est 0 None w] tried by simp
  show ?thesis using fatal retry noquota ended calls by blast
qed

lemmas ex_defs = attemptBody_def reserveFor_def callProvider_def onProviderError_def
  onSuccess_def newUUID_def timeNow_def exEnv_def exWorld_def exRequest_def cand_def
  Reserve_def Rollback_def Commit_def SetQuota_def NewMemoryQuotaStore_def maybeReset_def
  nextMidnightUTC_def dayNanos_def QuotaTokens_def QuotaRequests_def
  IsFatal_def providerRequest_def Let_def ChatCompletion_attempts_def afterLoop_def

text \<open>
  The theorem on the example router: a rate-limited provider followed by one that fails
  authentication ends at attempt 2 without invoking the third; a rate-limited provider
  alone ends with \<open>ErrAllFailed\<close>; after it the next candidate is tried; a failed
  reservation invokes no provider; an empty list gives \<open>ErrNoCandidates\<close>.
\<close>

theorem ChatCompletion_attempt_loop_witness:
  "fst (ChatCompletion_attempts exEnv exRequest 7
          [cand ''busy'' ''a1'' True, cand ''locked'' ''a2'' True, cand ''ok'' ''a3'' True]
          exWorld) =
     Inl (RouterError ErrAuthFailed ''locked'' ''a2'' ''m'' 2) \<and>
   map fst (w_calls (snd (ChatCompletion_attempts exEnv exRequest 7
          [cand ''busy'' ''a1'' True, cand ''locked'' ''a2'' True, cand ''ok'' ''a3'' True]
          exWorld))) = [''busy'', ''locked''] \<and>
   fst (ChatCompletion_attempts exEnv exRequest 7 [cand ''busy'' ''a1'' True] exWorld) =
     Inl (RouterError ErrAllFailed [] [] [] 1) \<and>
   map_sum id cr_Routing
     (fst (ChatCompletion_attempts exEnv exRequest 7
             [cand ''busy'' ''a1'' True, cand ''ok'' ''a3'' True] exWorld)) =
     Inr \<lparr>ri_Provider = ''ok'', ri_AccountID = ''a3'', ri_Model = ''m'', ri_Attempts = 2,
          ri_Free = True\<rparr> \<and>
   ChatCompletion_attempts exEnv exRequest 7 [cand ''ok'' ''full'' True] exWorld =
     (Inl (RouterError ErrAllFailed [] [] [] 1),
      snd (reserveFor exEnv 7 (cand ''ok'' ''full'' True) exWorld)) \<and>
   w_calls (snd (reserveFor exEnv 7 (cand ''ok'' ''full'' True) exWorld)) = [] \<and>
   ChatCompletion_attempts exEnv exRequest 7 [] exWorld = (Inl ErrNoCandidates, exWorld)"
proof -
  let ?busy = "cand ''busy'' ''a1'' True"
  let ?locked = "cand ''locked'' ''a2'' True"
  let ?ok = "cand ''ok'' ''a3'' True"
  let ?full = "cand ''ok'' ''full'' True"
  define W1 where "W1 = snd (attemptLoop exEnv exRequest 7 0 [?busy] None exWorld)"
  have tried: "attemptLoop exEnv exRequest 7 0 [?busy] None exWorld =
      (Exhausted (Some ErrRateLimited), W1)"
    by (simp add: W1_def ex_defs)
  have calls1: "map fst (w_calls W1) = [''busy'']" by (simp add: W1_def ex_defs)
  define rsv where "rsv = \<lparr>rsv_ID = ''rsv-uu'', rsv_AccountID = ''a2'', rsv_Amount = 7,
                            rsv_Unit = QuotaTokens\<rparr>"
  define W2 where "W2 = snd (reserveFor exEnv 7 ?locked W1)"
  have r: "reserveFor exEnv 7 ?locked W1 = (Inr rsv, W2)"
    by (simp add: W2_def W1_def rsv_def ex_defs)
  define D where "D = snd (fst (callProvider exEnv exRequest 7 (int (length [?busy])) ?locked W2))"
  define W3 where "W3 = snd (callProvider exEnv exRequest 7 (int (length [?busy])) ?locked W2)"
  have p: "callProvider exEnv exRequest 7 (int (length [?busy])) ?locked W2 =
      ((Inl ErrAuthFailed, D), W3)"
    by (simp add: D_def W3_def callProvider_def timeNow_def exEnv_def Let_def cand_def)
  have fatal: "IsFatal ErrAuthFailed" by (simp add: IsFatal_def)
  note inst = ChatCompletion_attempt_loop [OF tried, of ?locked rsv W2 ErrAuthFailed D W3 "[?ok]"]
  have 1: "ChatCompletion_attempts exEnv exRequest 7 ([?busy] @ ?locked # [?ok]) exWorld =
         (Inl (RouterError ErrAuthFailed (Provider ?locked) (AccountID ?locked) (Model ?locked)
                 (int (length [?busy]) + 1)),
          onProviderError exEnv ?locked rsv ErrAuthFailed D W3)"
    and 2: "w_calls (onProviderError exEnv ?locked rsv ErrAuthFailed D W3) =
         w_calls W1 @ [(Provider ?locked, providerRequest exRequest ?locked)]"
    and 3: "ChatCompletion_attempts exEnv exRequest 7 [?busy] exWorld =
      (if [?busy] \<noteq> [] then Inl (RouterError ErrAllFailed [] [] [] (int (length [?busy])))
       else Inl ErrNoCandidates, W1)"
    using inst r p fatal by blast+
  have start: "attemptLoop exEnv exRequest 7 0 [] None exWorld = (Exhausted None, exWorld)"
    by simp
  define V2 where "V2 = snd (reserveFor exEnv 7 ?busy exWorld)"
  define E where "E = snd (fst (callProvider exEnv exRequest 7 (int (length ([] :: Candidate list))) ?busy V2))"
  define V3 where "V3 = snd (callProvider exEnv exRequest 7 (int (length ([] :: Candidate list))) ?busy V2)"
  define rsv' where "rsv' = \<lparr>rsv_ID = ''rsv-u'', rsv_AccountID = ''a1'', rsv_Amount = 7,
                            rsv_Unit = QuotaTokens\<rparr>"
  have r': "reserveFor exEnv 7 ?busy exWorld = (Inr rsv', V2)"
    by (simp add: V2_def rsv'_def ex_defs)
  have p': "callProvider exEnv exRequest 7 (int (length ([] :: Candidate list))) ?busy V2 =
      ((Inl ErrRateLimited, E), V3)"
    by (simp add: E_def V3_def callProvider_def timeNow_def exEnv_def Let_def cand_def)
  have retryable: "\<not> IsFatal ErrRateLimited" by (simp add: IsFatal_def)
  note inst' = ChatCompletion_attempt_loop
      [OF start, of ?busy rsv' V2 ErrRateLimited E V3 "[?ok]"]
  have 4: "ChatCompletion_attempts exEnv exRequest 7 ([] @ ?busy # [?ok]) exWorld =
         afterLoop ([] @ ?busy # [?ok])
           (attemptLoop exEnv exRequest 7 (int (length ([] :: Candidate list)) + 1) [?ok]
              (Some ErrRateLimited) (onProviderError exEnv ?busy rsv' ErrRateLimited E V3))"
    and 5: "ChatCompletion_attempts exEnv exRequest 7 [] exWorld =
      (if ([] :: Candidate list) \<noteq> [] then Inl (RouterError ErrAllFailed [] [] [] (int (length ([] :: Candidate list))))
       else Inl ErrNoCandidates, exWorld)"
    using inst' r' p' retryable by blast+
  have same: "onProviderError exEnv ?busy rsv' ErrRateLimited E V3 =
      snd (attemptLoop exEnv exRequest 7 0 [?busy] None exWorld)"
    using r' p' retryable by (simp add: attemptBody_def)
  define U2 where "U2 = snd (reserveFor exEnv 7 ?full exWorld)"
  have r'': "reserveFor exEnv 7 ?full exWorld = (Inl ErrQuotaExceeded, U2)"
    by (simp add: U2_def ex_defs wrap64_def)
  note inst'' = ChatCompletion_attempt_loop
      [OF start, of ?full rsv U2 ErrQuotaExceeded D W3 "[]"]
  have 6: "ChatCompletion_attempts exEnv exRequest 7 ([] @ ?full # []) exWorld =
         afterLoop ([] @ ?full # [])
           (attemptLoop exEnv exRequest 7 (int (length ([] :: Candidate list)) + 1) []
              (Some ErrQuotaExceeded) U2)"
    and 7: "w_calls U2 = w_calls exWorld"
    using inst'' r'' by blast+
  have w0: "w_calls exWorld = []" by (simp add: exWorld_def)
  have next_tried: "map_sum id cr_Routing
      (fst (afterLoop [?busy, ?ok]
              (attemptLoop exEnv exRequest 7 1 [?ok] (Some ErrRateLimited)
                 (snd (attemptLoop exEnv exRequest 7 0 [?busy] None exWorld))))) =
      Inr \<lparr>ri_Provider = ''ok'', ri_AccountID = ''a3'', ri_Model = ''m'', ri_Attempts = 2,
           ri_Free = True\<rparr>"
    by (simp add: ex_defs okResponse_def)
  show ?thesis
    using 1 2 3 4 5 6 7 calls1 same w0 next_tried
    by (simp add: cand_def afterLoop_def U2_def)
qed

section \<open>Properties of RouterStream\<close>

lemma Next_retains:
  "s_Next E (inner s) = ((chunk, Some e), i) \<Longrightarrow>
     streamErr (snd (Next E s)) = (if streamErr s = None then Some e else streamErr s) \<and>
     totalUsage (snd (Next E s)) = totalUsage s"
  "s_Next E (inner s) = ((chunk, None), i) \<Longrightarrow>
     streamErr (snd (Next E s)) = streamErr s \<and>
     totalUsage (snd (Next E s)) = (case sc_Usage chunk of Some u \<Rightarrow> u | None \<Rightarrow> totalUsage s)"
  by (simp_all add: Next_def Let_def split: option.splits)









end
